theory Spec2Isabelle
  imports Main "HOL-Library.Char_ord" "HOL-Library.List_Lexorder" "HOL-Library.Multiset"
begin

section \<open>The job queue server: data\<close>

text \<open>
  The server keeps one record per job (\<open>JobMeta\<close>), written as a JSON document to
  \<open>JOBS_DIR/id/meta.json\<close>, runs each job as a child process in a goroutine of its own,
  and keeps the running jobs in a registry guarded by a mutex. The repository holds three
  revisions of \<open>main.go\<close>; the definitions follow the latest one, which has the listing of
  the jobs, the log endpoint, the staged input and the fixed command prefix, and they keep
  the names of its functions. \<open>runJob\<close> is cut where another goroutine can run in between
  (\<open>runJob_start\<close>, \<open>runJob_register\<close>, \<open>runJob_wait\<close>, \<open>runJob_unregister\<close>,
  \<open>runJob_finish\<close>).

  What lies outside the program is an input of the model:
  \<^item> \<open>json.MarshalIndent\<close> and \<open>json.Unmarshal\<close> are parameters (\<open>marshal\<close>,
    \<open>unmarshal\<close>); \<open>unmarshal data v\<close> returns the target as the decoder left it, and
    whether it reported an error;
  \<^item> a \<open>time.Time\<close> is an instant, in seconds since 0001-01-01T00:00:00Z (\<open>wall\<close>), with
    the offset of its zone east of UTC in seconds (\<open>zone\<close>); the zero \<open>time.Time\<close> is
    instant 0 in UTC. The fraction of a second is left out: the text of
    \<open>Format(time.RFC3339)\<close>, which is what the listing shows and compares, does not have it;
  \<^item> \<open>uuid.NewString\<close>, \<open>time.Now\<close>, the outcome of \<open>cmd.Start\<close> and of \<open>cmd.Wait\<close> and
    the bytes the child wrote are carried by the events of the system;
  \<^item> the file system is a map from paths to contents. Directories are implicit, so
    \<open>os.MkdirAll\<close> changes nothing and the listing of the jobs directory is an input of
    \<open>listJobs\<close>. A write to the map always succeeds (the program ignores the errors of
    \<open>os.Create\<close> and \<open>os.WriteFile\<close>);
  \<^item> the \<open>DEBUG\<close> lines written to the server's standard error are left out.
\<close>

datatype Time = Time (wall: int) (zone: int)

definition zeroTime :: Time where
  "zeroTime = Time 0 0"

record JobMeta =
  ID :: string
  Args :: "string list"
  MimeType :: string
  Webhook :: string
  Status :: string
  PID :: int
  EnqueuedAt :: Time
  StartedAt :: Time
  CompletedAt :: Time

text \<open>The zero value of the struct: what \<open>var meta JobMeta\<close> declares.\<close>

definition zeroMeta :: JobMeta where
  "zeroMeta = \<lparr>ID = [], Args = [], MimeType = [], Webhook = [], Status = [], PID = 0,
     EnqueuedAt = zeroTime, StartedAt = zeroTime, CompletedAt = zeroTime\<rparr>"

type_synonym marshaller = "JobMeta \<Rightarrow> string"
type_synonym unmarshaller = "string \<Rightarrow> JobMeta \<Rightarrow> JobMeta \<times> bool"

record env =
  JOBS_DIR :: string
  BASE_URL :: string
  TMPDIR :: string

datatype error = PathError string

text \<open>
  The program counter of a job's goroutine, at the points where another goroutine can
  run in between: the lock makes the registry operations atomic, and \<open>cmd.Wait\<close> blocks.
\<close>

datatype pc =
    Queued        \<comment> \<open>in the channel\<close>
  | Ready         \<comment> \<open>\<open>go runJob\<close> done, nothing run yet\<close>
  | Started       \<comment> \<open>IN_PROGRESS saved, not yet registered\<close>
  | Registered    \<comment> \<open>in the registry, blocked in \<open>cmd.Wait\<close>\<close>
  | Waited        \<comment> \<open>\<open>cmd.Wait\<close> has returned\<close>
  | Unregistered  \<comment> \<open>deleted from the registry\<close>
  | Returned      \<comment> \<open>\<open>runJob\<close> has returned\<close>

text \<open>
  A job: the \<open>queuedJob\<close> of the source (the \<open>*JobMeta\<close> in memory and the path of the
  staged input) with the locals of its \<open>runJob\<close>: \<open>cmd.Stdin\<close>, whether the context is
  cancelled (\<open>ctx.Err() == context.Canceled\<close>) and whether \<open>cmd.Wait\<close> returned an error.
\<close>

record job =
  meta :: JobMeta
  inputFilePath :: string
  pc :: pc
  stdin :: "string option"
  canceled :: bool
  waitErr :: bool

datatype effect =
    Saved JobMeta                              \<comment> \<open>\<open>saveMeta\<close> wrote this record\<close>
  | Posted string "(string \<times> string) list"     \<comment> \<open>\<open>http.Post\<close> to a URL, with this payload\<close>

record state =
  files :: "string \<rightharpoonup> string"
  jobs :: "string \<rightharpoonup> job"
  queue :: "string list"
  runningJobs :: "string \<rightharpoonup> string"
  hooks :: "string list"
  trace :: "effect list"
  crashed :: bool

text \<open>
  \<open>runningJobs\<close> maps an identifier to the \<open>RunningJob\<close> registered under it, here the
  key of the job whose \<open>cancel\<close> function it holds. \<open>hooks\<close> are the \<open>sendWebhook\<close>
  goroutines started and not yet run. \<open>trace\<close> is the log of the writes of records and
  of the notifications attempted, oldest first. \<open>crashed\<close>: a goroutine has panicked,
  which ends the server process.
\<close>

definition init :: "(string \<rightharpoonup> string) \<Rightarrow> state" where
  "init fs = \<lparr>files = fs, jobs = Map.empty, queue = [], runningJobs = Map.empty,
     hooks = [], trace = [], crashed = False\<rparr>"

section \<open>Paths and strings\<close>

text \<open>
  \<open>filepath.Join\<close> on elements that are not empty and have no dot segments, as the
  identifiers of \<open>uuid.NewString\<close> are: the elements with a separator in between.
\<close>

fun filepath_Join :: "string list \<Rightarrow> string" where
  "filepath_Join [] = []"
| "filepath_Join [x] = x"
| "filepath_Join (x # y # ys) = x @ ''/'' @ filepath_Join (y # ys)"

definition getJobsDir :: "env \<Rightarrow> string" where
  "getJobsDir e = (let dir = JOBS_DIR e in if dir = [] then ''jobs'' else dir)"

definition strings_HasPrefix :: "string \<Rightarrow> string \<Rightarrow> bool" where
  "strings_HasPrefix s p = (take (length p) s = p)"

definition strings_TrimPrefix :: "string \<Rightarrow> string \<Rightarrow> string" where
  "strings_TrimPrefix s p = (if strings_HasPrefix s p then drop (length p) s else s)"

text \<open>\<open>strings.Split\<close> with a separator of one byte.\<close>

fun strings_Split :: "string \<Rightarrow> char \<Rightarrow> string list" where
  "strings_Split [] c = [[]]"
| "strings_Split (x # xs) c =
     (if x = c then [] # strings_Split xs c
      else (case strings_Split xs c of
              [] \<Rightarrow> [[x]]
            | p # ps \<Rightarrow> (x # p) # ps))"

section \<open>The metadata store\<close>

definition metaPath :: "env \<Rightarrow> string \<Rightarrow> string" where
  "metaPath e i = filepath_Join [getJobsDir e, i, ''meta.json'']"

definition saveMeta :: "marshaller \<Rightarrow> env \<Rightarrow> JobMeta \<Rightarrow> state \<Rightarrow> state" where
  "saveMeta marshal e m s =
     (let path = metaPath e (ID m);
          data = marshal m
      in s\<lparr>files := (files s)(path \<mapsto> data), trace := trace s @ [Saved m]\<rparr>)"

definition loadMeta :: "unmarshaller \<Rightarrow> env \<Rightarrow> (string \<rightharpoonup> string) \<Rightarrow> string \<Rightarrow> error + JobMeta" where
  "loadMeta unmarshal e fs i =
     (let path = metaPath e i in
      case fs path of
        None \<Rightarrow> Inl (PathError path)
      | Some data \<Rightarrow> Inr (fst (unmarshal data zeroMeta)))"

section \<open>The webhook\<close>

definition webhookPayload :: "JobMeta \<Rightarrow> (string \<times> string) list" where
  "webhookPayload m =
     [(''id'', ID m), (''status'', Status m), (''result_url'', ''/jobs/'' @ ID m @ ''/result'')]"

definition sendWebhook :: "JobMeta \<Rightarrow> state \<Rightarrow> state" where
  "sendWebhook m s = s\<lparr>trace := trace s @ [Posted (Webhook m) (webhookPayload m)]\<rparr>"

section \<open>runJob\<close>

datatype spawn = SpawnErr | SpawnOk int

definition stdoutPath :: "env \<Rightarrow> string \<Rightarrow> string" where
  "stdoutPath e i = filepath_Join [filepath_Join [getJobsDir e, i], ''stdout.txt'']"

definition stderrPath :: "env \<Rightarrow> string \<Rightarrow> string" where
  "stderrPath e i = filepath_Join [filepath_Join [getJobsDir e, i], ''stderr.txt'']"

definition stagedInputPath :: "env \<Rightarrow> string \<Rightarrow> string" where
  "stagedInputPath e i = filepath_Join [TMPDIR e, ''input-'' @ i @ ''.tmp'']"

definition setJob :: "string \<Rightarrow> job \<Rightarrow> state \<Rightarrow> state" where
  "setJob i j s = s\<lparr>jobs := (jobs s)(i \<mapsto> j)\<rparr>"

text \<open>
  From the entry of \<open>runJob\<close> to the first write of the record: \<open>meta.Args[0]\<close> panics on
  an empty argument vector; the two output files are created; the staged input is
  opened when there is one; \<open>cmd.Start\<close> fails (and \<open>runJob\<close> returns) or gives a process.
\<close>

definition runJob_start :: "marshaller \<Rightarrow> env \<Rightarrow> string \<Rightarrow> spawn \<Rightarrow> Time \<Rightarrow> state \<Rightarrow> state" where
  "runJob_start marshal e i sp now s =
     (case jobs s i of
        None \<Rightarrow> s
      | Some j \<Rightarrow>
          if Args (meta j) = [] then s\<lparr>crashed := True\<rparr>
          else
            let s1 = s\<lparr>files := (files s)(stdoutPath e (ID (meta j)) \<mapsto> [],
                                            stderrPath e (ID (meta j)) \<mapsto> [])\<rparr>;
                inp = (if inputFilePath j \<noteq> [] then files s1 (inputFilePath j) else None)
            in (case sp of
                  SpawnErr \<Rightarrow>
                    let m = (meta j)\<lparr>Status := ''FAILED'', StartedAt := now, CompletedAt := now\<rparr>
                    in saveMeta marshal e m (setJob i (j\<lparr>meta := m, stdin := inp, pc := Returned\<rparr>) s1)
                | SpawnOk p \<Rightarrow>
                    let m = (meta j)\<lparr>PID := p, Status := ''IN_PROGRESS'', StartedAt := now\<rparr>
                    in saveMeta marshal e m (setJob i (j\<lparr>meta := m, stdin := inp, pc := Started\<rparr>) s1)))"

definition runJob_register :: "string \<Rightarrow> state \<Rightarrow> state" where
  "runJob_register i s =
     (case jobs s i of
        None \<Rightarrow> s
      | Some j \<Rightarrow> setJob i (j\<lparr>pc := Registered\<rparr>) (s\<lparr>runningJobs := (runningJobs s)(ID (meta j) \<mapsto> i)\<rparr>))"

text \<open>
  \<open>cmd.Wait\<close> returns: \<open>err\<close> tells whether with an error, \<open>out\<close> and \<open>log\<close> are what
  the child wrote to its standard output and standard error.
\<close>

definition runJob_wait :: "env \<Rightarrow> string \<Rightarrow> bool \<Rightarrow> Time \<Rightarrow> string \<Rightarrow> string \<Rightarrow> state \<Rightarrow> state" where
  "runJob_wait e i err now out log s =
     (case jobs s i of
        None \<Rightarrow> s
      | Some j \<Rightarrow>
          setJob i (j\<lparr>meta := (meta j)\<lparr>CompletedAt := now\<rparr>, waitErr := err, pc := Waited\<rparr>)
            (s\<lparr>files := (files s)(stdoutPath e (ID (meta j)) \<mapsto> out,
                                  stderrPath e (ID (meta j)) \<mapsto> log)\<rparr>))"

definition runJob_unregister :: "string \<Rightarrow> state \<Rightarrow> state" where
  "runJob_unregister i s =
     (case jobs s i of
        None \<Rightarrow> s
      | Some j \<Rightarrow> setJob i (j\<lparr>pc := Unregistered\<rparr>)
                    (s\<lparr>runningJobs := (runningJobs s)(ID (meta j) := None)\<rparr>))"

text \<open>
  The rest of \<open>runJob\<close>: the staged input is removed, the terminal status is chosen and
  written, and the webhook goroutine is started when the record has a target.
\<close>

definition runJob_finish :: "marshaller \<Rightarrow> env \<Rightarrow> string \<Rightarrow> state \<Rightarrow> state" where
  "runJob_finish marshal e i s =
     (case jobs s i of
        None \<Rightarrow> s
      | Some j \<Rightarrow>
          let s1 = (if inputFilePath j \<noteq> []
                    then s\<lparr>files := (files s)(inputFilePath j := None)\<rparr> else s);
              m = (if canceled j then (meta j)\<lparr>Status := ''CANCELED''\<rparr>
                   else if waitErr j then (meta j)\<lparr>Status := ''FAILED''\<rparr>
                   else (meta j)\<lparr>Status := ''COMPLETED''\<rparr>);
              s2 = saveMeta marshal e m (setJob i (j\<lparr>meta := m, pc := Returned\<rparr>) s1)
          in if Webhook m \<noteq> [] then s2\<lparr>hooks := hooks s2 @ [i]\<rparr> else s2)"

section \<open>The text of a time\<close>

text \<open>
  \<open>t.Format(time.RFC3339)\<close>, as the Go library documents it for the layout
  \<open>2006-01-02T15:04:05Z07:00\<close>: the date and the time of day on the clock of the time's
  own zone (the proleptic Gregorian calendar, for the years 1 to 9999, which are the ones
  a record can hold), then \<open>Z\<close> when the offset is zero and else the offset as a sign,
  hours and minutes.
\<close>

definition isLeap :: "int \<Rightarrow> bool" where
  "isLeap y = (y mod 4 = 0 \<and> (y mod 400 = 0 \<or> y mod 100 \<noteq> 0))"

text \<open>
  The year of a day counted from 0001-01-01, and the day in that year counted from 0:
  cycles of 400, 100, 4 and 1 years, where the last century of a cycle of 400 years and
  the last year of a cycle of 4 years have one day more.
\<close>

definition civilYear :: "int \<Rightarrow> int \<times> int" where
  "civilYear d =
     (let n400 = d div 146097; d1 = d mod 146097;
          n100 = min 3 (d1 div 36524); d2 = d1 - 36524 * n100;
          n4 = d2 div 1461; d3 = d2 mod 1461;
          n1 = min 3 (d3 div 365); d4 = d3 - 365 * n1
      in (400 * n400 + 100 * n100 + 4 * n4 + n1 + 1, d4))"

definition monthLengths :: "int \<Rightarrow> int list" where
  "monthLengths y = [31, if isLeap y then 29 else 28, 31, 30, 31, 30, 31, 31, 30, 31, 30, 31]"

fun monthDay :: "int list \<Rightarrow> int \<Rightarrow> int \<Rightarrow> int \<times> int" where
  "monthDay [] m d = (m, d + 1)"
| "monthDay (l # ls) m d = (if d < l then (m, d + 1) else monthDay ls (m + 1) (d - l))"

definition civil :: "int \<Rightarrow> int \<times> int \<times> int" where
  "civil d =
     (let (y, yd) = civilYear d;
          (m, dd) = monthDay (monthLengths y) 1 yd
      in (y, m, dd))"

definition digit :: "int \<Rightarrow> char" where
  "digit n = ''0123456789'' ! nat (n mod 10)"

definition pad2 :: "int \<Rightarrow> string" where
  "pad2 n = [digit (n div 10), digit n]"

definition pad4 :: "int \<Rightarrow> string" where
  "pad4 n = [digit (n div 1000), digit (n div 100), digit (n div 10), digit n]"

text \<open>The offset in minutes, rounded towards zero as Go's integer division does.\<close>

definition zoneText :: "int \<Rightarrow> string" where
  "zoneText off =
     (if off = 0 then ''Z''
      else
        let mins = (if off < 0 then - ((- off) div 60) else off div 60) in
        (if mins < 0 then ''-'' @ pad2 ((- mins) div 60) @ '':'' @ pad2 ((- mins) mod 60)
         else ''+'' @ pad2 (mins div 60) @ '':'' @ pad2 (mins mod 60)))"

definition Format_RFC3339 :: "Time \<Rightarrow> string" where
  "Format_RFC3339 t =
     (let clock = wall t + zone t;
          (y, m, d) = civil (clock div 86400);
          s = clock mod 86400
      in pad4 y @ ''-'' @ pad2 m @ ''-'' @ pad2 d @ ''T'' @
         pad2 (s div 3600) @ '':'' @ pad2 (s mod 3600 div 60) @ '':'' @ pad2 (s mod 60) @
         zoneText (zone t))"

section \<open>The handlers\<close>

record request =
  rArgs :: "string list"
  rMimeType :: string
  rWebhook :: string
  rBody :: string

record jobEntry =
  entryID :: string
  entryArgs :: "string list"
  entryStatus :: string
  entryResultURL :: string
  entryLogURL :: string
  entryEnqueuedAt :: string

datatype response =
    NotFound                                   \<comment> \<open>\<open>http.NotFound\<close>\<close>
  | HttpError string nat                       \<comment> \<open>\<open>http.Error\<close> with a message and a code\<close>
  | EncodeMeta JobMeta                         \<comment> \<open>the record, encoded\<close>
  | EncodeMap "(string \<times> string) list"
  | EncodeJobs "jobEntry list"
  | ServeFile string                           \<comment> \<open>\<open>http.ServeFile\<close> of a path\<close>
  | WriteHeader nat

text \<open>
  \<open>submitJob\<close>: \<open>req\<close> is the decoded body (\<open>None\<close> when the decoder fails), \<open>rBody\<close> the
  bytes after the JSON document, \<open>i\<close> the identifier \<open>uuid.NewString\<close> returns. The send
  on the channel is the append to \<open>queue\<close>.
\<close>

definition submitJob ::
  "marshaller \<Rightarrow> env \<Rightarrow> string list \<Rightarrow> request option \<Rightarrow> string \<Rightarrow> Time \<Rightarrow> state \<Rightarrow> response \<times> state" where
  "submitJob marshal e fixedArgs req i now s =
     (case req of
        None \<Rightarrow> (HttpError ''Invalid JSON'' 400, s)
      | Some r \<Rightarrow>
          let inputPath = (if rBody r \<noteq> [] then stagedInputPath e i else []);
              s1 = (if rBody r \<noteq> [] then s\<lparr>files := (files s)(inputPath \<mapsto> rBody r)\<rparr> else s);
              args = (if fixedArgs \<noteq> [] then fixedArgs @ rArgs r else rArgs r);
              m = \<lparr>ID = i, Args = args, MimeType = rMimeType r, Webhook = rWebhook r,
                   Status = ''IN_QUEUE'', PID = 0, EnqueuedAt = now,
                   StartedAt = zeroTime, CompletedAt = zeroTime\<rparr>;
              s2 = saveMeta marshal e m s1;
              s3 = (setJob i \<lparr>meta = m, inputFilePath = inputPath, pc = Queued, stdin = None,
                              canceled = False, waitErr = False\<rparr> s2)\<lparr>queue := queue s2 @ [i]\<rparr>;
              baseURL = BASE_URL e;
              statusPath = ''/jobs/'' @ i @ ''/status'';
              resultPath = ''/jobs/'' @ i @ ''/result'';
              logPath = ''/jobs/'' @ i @ ''/log''
          in (EncodeMap
                (if baseURL \<noteq> []
                 then [(''id'', i), (''status_url'', baseURL @ statusPath),
                       (''result_url'', baseURL @ resultPath), (''log_url'', baseURL @ logPath)]
                 else [(''id'', i), (''status_url'', statusPath),
                       (''result_url'', resultPath), (''log_url'', logPath)]),
              s3))"

text \<open>The cancellation of a registered job: its context becomes cancelled.\<close>

definition cancelJob :: "string \<Rightarrow> state \<Rightarrow> state" where
  "cancelJob k s =
     (case jobs s k of
        None \<Rightarrow> s
      | Some j \<Rightarrow> setJob k (j\<lparr>canceled := True\<rparr>) s)"

definition jobHandler ::
  "unmarshaller \<Rightarrow> env \<Rightarrow> string \<Rightarrow> string \<Rightarrow> state \<Rightarrow> response \<times> state" where
  "jobHandler unmarshal e meth path s =
     (let parts = strings_Split (strings_TrimPrefix path ''/jobs/'') CHR ''/'' in
      if length parts < 2 then (NotFound, s)
      else
        let i = parts ! 0; endpoint = parts ! 1 in
        if endpoint = ''status'' then
          (case loadMeta unmarshal e (files s) i of
             Inl err \<Rightarrow> (HttpError ''Job not found'' 404, s)
           | Inr m \<Rightarrow> (EncodeMeta m, s))
        else if endpoint = ''result'' then
          (case loadMeta unmarshal e (files s) i of
             Inl err \<Rightarrow> (HttpError ''Result not available'' 404, s)
           | Inr m \<Rightarrow>
               if Status m \<noteq> ''COMPLETED'' then (HttpError ''Result not available'' 404, s)
               else (ServeFile (filepath_Join [getJobsDir e, i, ''stdout.txt'']), s))
        else if endpoint = ''log'' then
          (let p = filepath_Join [getJobsDir e, i, ''stderr.txt''] in
           case files s p of
             None \<Rightarrow> (HttpError ''Log not available'' 404, s)
           | Some _ \<Rightarrow> (ServeFile p, s))
        else if endpoint = ''cancel'' then
          (if meth \<noteq> ''PUT'' then (NotFound, s)
           else (WriteHeader 200,
                 (case runningJobs s i of
                    None \<Rightarrow> s
                  | Some k \<Rightarrow> cancelJob k s)))
        else (NotFound, s))"

text \<open>
  \<open>sort.Slice\<close> as the insertion sort it runs on a short slice: each element moves left
  past the elements it is less than.
\<close>

fun insertSlice :: "('a \<Rightarrow> 'a \<Rightarrow> bool) \<Rightarrow> 'a \<Rightarrow> 'a list \<Rightarrow> 'a list" where
  "insertSlice lt x [] = [x]"
| "insertSlice lt x (y # ys) = (if lt x y then x # y # ys else y # insertSlice lt x ys)"

definition sort_Slice :: "('a \<Rightarrow> 'a \<Rightarrow> bool) \<Rightarrow> 'a list \<Rightarrow> 'a list" where
  "sort_Slice lt xs = foldl (\<lambda>acc x. insertSlice lt x acc) [] xs"

text \<open>The loop of \<open>listJobs\<close> over the entries of the jobs directory (name, is a directory).\<close>

fun collectJobs ::
  "unmarshaller \<Rightarrow> env \<Rightarrow> (string \<rightharpoonup> string) \<Rightarrow> (string \<times> bool) list \<Rightarrow> jobEntry list" where
  "collectJobs unmarshal e fs [] = []"
| "collectJobs unmarshal e fs ((name, isDir) # entries) =
     (if \<not> isDir then collectJobs unmarshal e fs entries
      else
        (case fs (filepath_Join [getJobsDir e, name, ''meta.json'']) of
           None \<Rightarrow> collectJobs unmarshal e fs entries
         | Some data \<Rightarrow>
             (case unmarshal data zeroMeta of
                (m, True) \<Rightarrow> collectJobs unmarshal e fs entries
              | (m, False) \<Rightarrow>
                  (let resultPath = ''/jobs/'' @ ID m @ ''/result'';
                       logPath = ''/jobs/'' @ ID m @ ''/log''
                   in \<lparr>entryID = ID m, entryArgs = Args m, entryStatus = Status m,
                        entryResultURL = (if BASE_URL e \<noteq> [] then BASE_URL e @ resultPath else resultPath),
                        entryLogURL = (if BASE_URL e \<noteq> [] then BASE_URL e @ logPath else logPath),
                        entryEnqueuedAt = Format_RFC3339 (EnqueuedAt m)\<rparr>)
                  # collectJobs unmarshal e fs entries)))"

definition listJobs ::
  "unmarshaller \<Rightarrow> env \<Rightarrow> (string \<rightharpoonup> string) \<Rightarrow> error + (string \<times> bool) list \<Rightarrow> response" where
  "listJobs unmarshal e fs dir =
     (case dir of
        Inl err \<Rightarrow> HttpError ''Failed to read jobs directory'' 500
      | Inr entries \<Rightarrow>
          EncodeJobs (sort_Slice (\<lambda>a b. entryEnqueuedAt a > entryEnqueuedAt b)
                        (collectJobs unmarshal e fs entries)))"

section \<open>The system\<close>

datatype event =
    Submit "request option" string Time          \<comment> \<open>POST /jobs, with the identifier and the time\<close>
  | Dispatch                                     \<comment> \<open>\<open>workerLoop\<close> receives a job and starts its goroutine\<close>
  | Start string spawn Time
  | Register string
  | WaitReturns string bool Time string string
  | Unregister string
  | Finish string
  | Http string string                           \<comment> \<open>a request under /jobs/: its method and path\<close>
  | Notify string                                \<comment> \<open>a \<open>sendWebhook\<close> goroutine runs\<close>

definition pcOf :: "state \<Rightarrow> string \<Rightarrow> pc option" where
  "pcOf s i = map_option pc (jobs s i)"

definition workerLoop :: "state \<Rightarrow> state" where
  "workerLoop s =
     (case queue s of
        [] \<Rightarrow> s
      | i # q \<Rightarrow>
          (case jobs s i of
             None \<Rightarrow> s\<lparr>queue := q\<rparr>
           | Some j \<Rightarrow> setJob i (j\<lparr>pc := Ready\<rparr>) (s\<lparr>queue := q\<rparr>)))"

definition notify :: "string \<Rightarrow> state \<Rightarrow> state" where
  "notify i s =
     (if i \<in> set (hooks s) then
        (case jobs s i of
           None \<Rightarrow> s
         | Some j \<Rightarrow> sendWebhook (meta j) (s\<lparr>hooks := remove1 i (hooks s)\<rparr>))
      else s)"

text \<open>
  One step of the server. An identifier is issued once (\<open>uuid.NewString\<close>), so a
  submission under an identifier in use is no step of the program; a phase of \<open>runJob\<close>
  runs only from the program counter before it; nothing runs after a panic. Of the routes
  of \<open>jobsHandler\<close>, POST /jobs is the event \<open>Submit\<close>, GET /jobs (\<open>listJobs\<close>) changes
  nothing, a path under /jobs/ goes to \<open>jobHandler\<close>, and any other path is not found.
\<close>

definition step :: "marshaller \<Rightarrow> unmarshaller \<Rightarrow> env \<Rightarrow> string list \<Rightarrow> event \<Rightarrow> state \<Rightarrow> state" where
  "step marshal unmarshal e fixedArgs ev s =
     (if crashed s then s
      else
        (case ev of
           Submit req i now \<Rightarrow>
             if jobs s i = None then snd (submitJob marshal e fixedArgs req i now s) else s
         | Dispatch \<Rightarrow> workerLoop s
         | Start i sp now \<Rightarrow> if pcOf s i = Some Ready then runJob_start marshal e i sp now s else s
         | Register i \<Rightarrow> if pcOf s i = Some Started then runJob_register i s else s
         | WaitReturns i err now out log \<Rightarrow>
             if pcOf s i = Some Registered then runJob_wait e i err now out log s else s
         | Unregister i \<Rightarrow> if pcOf s i = Some Waited then runJob_unregister i s else s
         | Finish i \<Rightarrow> if pcOf s i = Some Unregistered then runJob_finish marshal e i s else s
         | Http meth path \<Rightarrow>
             if strings_HasPrefix path ''/jobs/'' then snd (jobHandler unmarshal e meth path s) else s
         | Notify i \<Rightarrow> notify i s))"

definition run :: "marshaller \<Rightarrow> unmarshaller \<Rightarrow> env \<Rightarrow> string list \<Rightarrow> event list \<Rightarrow> state \<Rightarrow> state" where
  "run marshal unmarshal e fixedArgs evs s = foldl (\<lambda>s ev. step marshal unmarshal e fixedArgs ev s) s evs"

section \<open>What is observed of a run\<close>

text \<open>The records \<open>saveMeta\<close> wrote for an identifier, oldest first.\<close>

fun savedRecords :: "string \<Rightarrow> effect list \<Rightarrow> JobMeta list" where
  "savedRecords i [] = []"
| "savedRecords i (Saved m # es) = (if ID m = i then m # savedRecords i es else savedRecords i es)"
| "savedRecords i (Posted u p # es) = savedRecords i es"

text \<open>The notifications attempted whose payload names an identifier, oldest first.\<close>

fun postedFor :: "string \<Rightarrow> effect list \<Rightarrow> (string \<times> (string \<times> string) list) list" where
  "postedFor i [] = []"
| "postedFor i (Saved m # es) = postedFor i es"
| "postedFor i (Posted u p # es) =
     (if map_of p ''id'' = Some i then (u, p) # postedFor i es else postedFor i es)"

text \<open>The fields of a record that \<open>runJob\<close> assigns.\<close>

definition row :: "JobMeta \<Rightarrow> string \<times> int \<times> Time \<times> Time" where
  "row m = (Status m, PID m, StartedAt m, CompletedAt m)"

definition rows :: "string \<Rightarrow> state \<Rightarrow> (string \<times> int \<times> Time \<times> Time) list" where
  "rows i s = map row (savedRecords i (trace s))"

section \<open>The invariant of the reachable states\<close>

text \<open>
  What the records written so far are, for a job at each program counter: the record
  of the submission; then the record of the start, which has the process identifier and
  the start time of the record in memory; then the terminal record, which is the record
  in memory.
\<close>

definition recOK :: "(string \<times> int \<times> Time \<times> Time) list \<Rightarrow> job \<Rightarrow> bool" where
  "recOK rs j =
     (let m = meta j;
          q = (''IN_QUEUE'', 0, zeroTime, zeroTime);
          p = (''IN_PROGRESS'', PID m, StartedAt m, zeroTime)
      in case pc j of
           Queued \<Rightarrow> rs = [q] \<and> row m = q
         | Ready \<Rightarrow> rs = [q] \<and> row m = q
         | Started \<Rightarrow> rs = [q, p] \<and> row m = p
         | Registered \<Rightarrow> rs = [q, p] \<and> row m = p
         | Waited \<Rightarrow> rs = [q, p] \<and> Status m = ''IN_PROGRESS''
         | Unregistered \<Rightarrow> rs = [q, p] \<and> Status m = ''IN_PROGRESS''
         | Returned \<Rightarrow>
             (rs = [q, row m] \<and> Status m = ''FAILED'' \<and> PID m = 0 \<and> StartedAt m = CompletedAt m) \<or>
             (rs = [q, p, row m] \<and>
              (Status m = ''CANCELED'' \<or> Status m = ''FAILED'' \<or> Status m = ''COMPLETED'')))"

definition jobInv :: "marshaller \<Rightarrow> env \<Rightarrow> state \<Rightarrow> string \<Rightarrow> bool" where
  "jobInv marshal e s i =
     ((jobs s i = None \<longrightarrow>
         savedRecords i (trace s) = [] \<and> i \<notin> set (queue s) \<and> i \<notin> set (hooks s)) \<and>
      (\<forall>j. jobs s i = Some j \<longrightarrow>
           ID (meta j) = i \<and>
           (inputFilePath j = [] \<or> inputFilePath j = stagedInputPath e i) \<and>
           recOK (rows i s) j \<and>
           (i \<in> set (queue s) \<longrightarrow> pc j = Queued) \<and>
           (i \<in> set (hooks s) \<longrightarrow> pc j = Returned)) \<and>
      (\<forall>k. runningJobs s i = Some k \<longrightarrow>
         k = i \<and> (pcOf s i = Some Registered \<or> pcOf s i = Some Waited)) \<and>
      (savedRecords i (trace s) \<noteq> [] \<longrightarrow>
         files s (metaPath e i) = Some (marshal (last (savedRecords i (trace s))))))"

definition Inv :: "marshaller \<Rightarrow> env \<Rightarrow> state \<Rightarrow> bool" where
  "Inv marshal e s = (distinct (queue s) \<and> (\<forall>i. jobInv marshal e s i))"

text \<open>What a step leaves as it is for an identifier it does not work on.\<close>

definition unchanged :: "env \<Rightarrow> string \<Rightarrow> state \<Rightarrow> state \<Rightarrow> bool" where
  "unchanged e k s s' =
     (jobs s' k = jobs s k \<and>
      savedRecords k (trace s') = savedRecords k (trace s) \<and>
      files s' (metaPath e k) = files s (metaPath e k) \<and>
      runningJobs s' k = runningJobs s k \<and>
      (k \<in> set (hooks s') \<longrightarrow> k \<in> set (hooks s)))"

section \<open>Lemmas: traces and paths\<close>

lemma savedRecords_append:
  "savedRecords i (es @ fs) = savedRecords i es @ savedRecords i fs"
  by (induction i es rule: savedRecords.induct) auto

lemma savedRecords_snoc_Saved:
  "savedRecords i (es @ [Saved m]) = (if ID m = i then savedRecords i es @ [m] else savedRecords i es)"
  by (simp add: savedRecords_append)

lemma savedRecords_snoc_Posted:
  "savedRecords i (es @ [Posted u p]) = savedRecords i es"
  by (simp add: savedRecords_append)

lemma metaPath_inj: "metaPath e a = metaPath e b \<Longrightarrow> a = b"
  by (simp add: metaPath_def)

lemma metaPath_eq_iff: "metaPath e a = metaPath e b \<longleftrightarrow> a = b"
  using metaPath_inj by auto

lemma metaPath_not_stdout: "metaPath e a \<noteq> stdoutPath e b"
proof
  assume "metaPath e a = stdoutPath e b"
  then have "last (metaPath e a) = last (stdoutPath e b)" by simp
  then show False by (simp add: metaPath_def stdoutPath_def)
qed

lemma metaPath_not_stderr: "metaPath e a \<noteq> stderrPath e b"
proof
  assume "metaPath e a = stderrPath e b"
  then have "last (metaPath e a) = last (stderrPath e b)" by simp
  then show False by (simp add: metaPath_def stderrPath_def)
qed

lemma metaPath_not_input: "metaPath e a \<noteq> stagedInputPath e b"
proof
  assume "metaPath e a = stagedInputPath e b"
  then have "last (metaPath e a) = last (stagedInputPath e b)" by simp
  then show False by (simp add: metaPath_def stagedInputPath_def)
qed

lemmas path_neq =
  metaPath_not_stdout metaPath_not_stderr metaPath_not_input
  metaPath_not_stdout [symmetric] metaPath_not_stderr [symmetric] metaPath_not_input [symmetric]

lemma Inv_init: "Inv marshal e (init fs)"
  by (simp add: Inv_def jobInv_def init_def pcOf_def)

lemma InvD:
  assumes "Inv marshal e s"
  shows "distinct (queue s)" and "jobInv marshal e s k"
  using assms by (simp_all add: Inv_def)

lemma jobInv_SomeD:
  assumes "jobInv marshal e s i" and "jobs s i = Some j"
  shows "ID (meta j) = i"
    and "inputFilePath j = [] \<or> inputFilePath j = stagedInputPath e i"
    and "recOK (rows i s) j"
    and "i \<in> set (queue s) \<Longrightarrow> pc j = Queued"
    and "i \<in> set (hooks s) \<Longrightarrow> pc j = Returned"
  using assms by (simp_all add: jobInv_def)

lemma recOK_same:
  "meta j' = meta j \<Longrightarrow> pc j' = pc j \<Longrightarrow> recOK rs j' = recOK rs j"
  by (simp add: recOK_def)

text \<open>A step that leaves everything about k as it is keeps k's invariant.\<close>

lemma jobInv_frame:
  assumes "jobInv marshal e s k"
    and "jobs s' k = jobs s k"
    and "savedRecords k (trace s') = savedRecords k (trace s)"
    and "k \<in> set (queue s') \<Longrightarrow> k \<in> set (queue s)"
    and "k \<in> set (hooks s') \<Longrightarrow> k \<in> set (hooks s)"
    and "runningJobs s' k = runningJobs s k"
    and "files s' (metaPath e k) = files s (metaPath e k)"
  shows "jobInv marshal e s' k"
  using assms unfolding jobInv_def rows_def pcOf_def by auto

text \<open>The invariant of the job a step works on, from its parts.\<close>

lemma jobInv_SomeI:
  assumes "jobs s' i = Some j'"
    and "ID (meta j') = i"
    and "inputFilePath j' = [] \<or> inputFilePath j' = stagedInputPath e i"
    and "recOK (map row (savedRecords i (trace s'))) j'"
    and "i \<in> set (queue s') \<Longrightarrow> pc j' = Queued"
    and "i \<in> set (hooks s') \<Longrightarrow> pc j' = Returned"
    and "\<And>k. runningJobs s' i = Some k \<Longrightarrow> k = i \<and> (pc j' = Registered \<or> pc j' = Waited)"
    and "savedRecords i (trace s') \<noteq> [] \<Longrightarrow>
           files s' (metaPath e i) = Some (marshal (last (savedRecords i (trace s'))))"
  shows "jobInv marshal e s' i"
  using assms unfolding jobInv_def rows_def pcOf_def by auto

lemma jobInv_running:
  assumes "jobInv marshal e s i" and "runningJobs s i = Some k" and "jobs s i = Some j"
  shows "k = i" and "pc j = Registered \<or> pc j = Waited"
  using assms by (auto simp: jobInv_def pcOf_def)

lemma jobInv_file:
  assumes "jobInv marshal e s i" and "savedRecords i (trace s) \<noteq> []"
  shows "files s (metaPath e i) = Some (marshal (last (savedRecords i (trace s))))"
  using assms by (simp add: jobInv_def)

section \<open>Lemmas: every step keeps the invariant\<close>

lemma Inv_update:
  assumes "Inv marshal e s"
    and "jobs s' = (jobs s)(i \<mapsto> j')"
    and "\<And>k. k \<noteq> i \<Longrightarrow> savedRecords k (trace s') = savedRecords k (trace s)"
    and "distinct (queue s')"
    and "set (queue s') \<subseteq> insert i (set (queue s))"
    and "set (hooks s') \<subseteq> insert i (set (hooks s))"
    and "\<And>k. k \<noteq> i \<Longrightarrow> runningJobs s' k = runningJobs s k"
    and "\<And>k. k \<noteq> i \<Longrightarrow> files s' (metaPath e k) = files s (metaPath e k)"
    and "jobInv marshal e s' i"
  shows "Inv marshal e s'"
proof -
  have "jobInv marshal e s' k" for k
  proof (cases "k = i")
    case True
    then show ?thesis using assms(9) by simp
  next
    case False
    show ?thesis
    proof (rule jobInv_frame [OF InvD(2) [OF assms(1), of k]])
      show "jobs s' k = jobs s k" using False assms(2) by simp
      show "savedRecords k (trace s') = savedRecords k (trace s)" using False assms(3) by simp
      show "k \<in> set (queue s') \<Longrightarrow> k \<in> set (queue s)" using False assms(5) by auto
      show "k \<in> set (hooks s') \<Longrightarrow> k \<in> set (hooks s)" using False assms(6) by auto
      show "runningJobs s' k = runningJobs s k" using False assms(7) by simp
      show "files s' (metaPath e k) = files s (metaPath e k)" using False assms(8) by simp
    qed
  qed
  then show ?thesis using assms(4) by (simp add: Inv_def)
qed

lemma Inv_finish:
  assumes I: "Inv marshal e s" and pc: "pcOf s i = Some Unregistered"
  shows "Inv marshal e (runJob_finish marshal e i s)"
proof -
  from pc obtain j where j: "jobs s i = Some j" "pc j = Unregistered"
    by (auto simp: pcOf_def)
  note Ii = InvD(2) [OF I, of i]
  note idj = jobInv_SomeD(1) [OF Ii j(1)]
  note inp = jobInv_SomeD(2) [OF Ii j(1)]
  have rec: "recOK (map row (savedRecords i (trace s))) j"
    using jobInv_SomeD(3) [OF Ii j(1)] by (simp add: rows_def)
  have nq: "i \<notin> set (queue s)"
    using jobInv_SomeD(4) [OF Ii j(1)] j(2) by auto
  have nr: "runningJobs s i = None"
    using jobInv_running(2) [OF Ii _ j(1)] j(2) by (cases "runningJobs s i") auto
  define m' where "m' = (if canceled j then (meta j)\<lparr>Status := ''CANCELED''\<rparr>
                   else if waitErr j then (meta j)\<lparr>Status := ''FAILED''\<rparr>
                   else (meta j)\<lparr>Status := ''COMPLETED''\<rparr>)"
  define s' where "s' = runJob_finish marshal e i s"
  have idm: "ID m' = i" using idj by (simp add: m'_def)
  have J: "jobs s' = (jobs s)(i \<mapsto> j\<lparr>meta := m', pc := Returned\<rparr>)"
    using j by (simp add: s'_def m'_def runJob_finish_def saveMeta_def setJob_def Let_def)
  have T: "trace s' = trace s @ [Saved m']"
    using j by (simp add: s'_def m'_def runJob_finish_def saveMeta_def setJob_def Let_def)
  have F: "files s' = (if inputFilePath j \<noteq> [] then (files s)(inputFilePath j := None) else files s)
                        (metaPath e i \<mapsto> marshal m')"
    using j idj by (simp add: s'_def m'_def runJob_finish_def saveMeta_def setJob_def Let_def)
  have Q: "queue s' = queue s"
    using j by (simp add: s'_def m'_def runJob_finish_def saveMeta_def setJob_def Let_def)
  have H: "set (hooks s') \<subseteq> insert i (set (hooks s))"
    using j by (auto simp: s'_def m'_def runJob_finish_def saveMeta_def setJob_def Let_def)
  have R: "runningJobs s' = runningJobs s"
    using j by (simp add: s'_def m'_def runJob_finish_def saveMeta_def setJob_def Let_def)
  have "Inv marshal e s'"
  proof (rule Inv_update [OF I J])
    show "savedRecords k (trace s') = savedRecords k (trace s)" if "k \<noteq> i" for k
      using that by (simp add: T savedRecords_snoc_Saved idm)
    show "distinct (queue s')" using InvD(1) [OF I] by (simp add: Q)
    show "set (queue s') \<subseteq> insert i (set (queue s))" by (auto simp: Q)
    show "set (hooks s') \<subseteq> insert i (set (hooks s))" by (rule H)
    show "runningJobs s' k = runningJobs s k" if "k \<noteq> i" for k by (simp add: R)
    show "files s' (metaPath e k) = files s (metaPath e k)" if "k \<noteq> i" for k
      using that inp by (auto simp: F metaPath_eq_iff path_neq)
    show "jobInv marshal e s' i"
    proof (rule jobInv_SomeI)
      show "jobs s' i = Some (j\<lparr>meta := m', pc := Returned\<rparr>)" by (simp add: J)
      show "ID (meta (j\<lparr>meta := m', pc := Returned\<rparr>)) = i" by (simp add: idm)
      show "inputFilePath (j\<lparr>meta := m', pc := Returned\<rparr>) = [] \<or>
            inputFilePath (j\<lparr>meta := m', pc := Returned\<rparr>) = stagedInputPath e i"
        using inp by simp
      show "recOK (map row (savedRecords i (trace s'))) (j\<lparr>meta := m', pc := Returned\<rparr>)"
        using rec j(2)
        by (simp add: T savedRecords_snoc_Saved idm idj recOK_def Let_def m'_def row_def)
      show "pc (j\<lparr>meta := m', pc := Returned\<rparr>) = Queued" if "i \<in> set (queue s')"
        using that nq by (simp add: Q)
      show "pc (j\<lparr>meta := m', pc := Returned\<rparr>) = Returned" if "i \<in> set (hooks s')"
        by simp
      show "k = i \<and> (pc (j\<lparr>meta := m', pc := Returned\<rparr>) = Registered \<or>
                     pc (j\<lparr>meta := m', pc := Returned\<rparr>) = Waited)"
        if "runningJobs s' i = Some k" for k
        using that nr by (simp add: R)
      show "files s' (metaPath e i) = Some (marshal (last (savedRecords i (trace s'))))"
        by (simp add: F T savedRecords_snoc_Saved idm)
    qed
  qed
  then show ?thesis by (simp add: s'_def)
qed

lemma Inv_crash:
  assumes "Inv marshal e s"
  shows "Inv marshal e (s\<lparr>crashed := True\<rparr>)"
  using assms by (simp add: Inv_def jobInv_def rows_def pcOf_def)

lemma Inv_start:
  assumes I: "Inv marshal e s" and pc: "pcOf s i = Some Ready"
  shows "Inv marshal e (runJob_start marshal e i sp now s)"
proof -
  from pc obtain j where j: "jobs s i = Some j" "pc j = Ready"
    by (auto simp: pcOf_def)
  note Ii = InvD(2) [OF I, of i]
  note idj = jobInv_SomeD(1) [OF Ii j(1)]
  note inp = jobInv_SomeD(2) [OF Ii j(1)]
  have rec: "recOK (map row (savedRecords i (trace s))) j"
    using jobInv_SomeD(3) [OF Ii j(1)] by (simp add: rows_def)
  have nq: "i \<notin> set (queue s)"
    using jobInv_SomeD(4) [OF Ii j(1)] j(2) by auto
  have nh: "i \<notin> set (hooks s)"
    using jobInv_SomeD(5) [OF Ii j(1)] j(2) by auto
  have nr: "runningJobs s i = None"
    using jobInv_running(2) [OF Ii _ j(1)] j(2) by (cases "runningJobs s i") auto
  show ?thesis
  proof (cases "Args (meta j) = []")
    case True
    then have "runJob_start marshal e i sp now s = s\<lparr>crashed := True\<rparr>"
      using j by (simp add: runJob_start_def)
    then show ?thesis using Inv_crash [OF I] by simp
  next
    case False
    define m' where "m' = (case sp of
        SpawnErr \<Rightarrow> (meta j)\<lparr>Status := ''FAILED'', StartedAt := now, CompletedAt := now\<rparr>
      | SpawnOk p \<Rightarrow> (meta j)\<lparr>PID := p, Status := ''IN_PROGRESS'', StartedAt := now\<rparr>)"
    define fs1 where "fs1 = (files s)(stdoutPath e i \<mapsto> [], stderrPath e i \<mapsto> [])"
    define j' where "j' = j\<lparr>meta := m',
        stdin := (if inputFilePath j \<noteq> [] then fs1 (inputFilePath j) else None),
        pc := (case sp of SpawnErr \<Rightarrow> Returned | SpawnOk p \<Rightarrow> Started)\<rparr>"
    define s' where "s' = runJob_start marshal e i sp now s"
    have idm: "ID m' = i" using idj by (simp add: m'_def split: spawn.splits)
    have J: "jobs s' = (jobs s)(i \<mapsto> j')"
      using j False idj
      by (cases sp) (simp_all add: s'_def j'_def m'_def fs1_def runJob_start_def saveMeta_def setJob_def Let_def)
    have T: "trace s' = trace s @ [Saved m']"
      using j False
      by (cases sp) (simp_all add: s'_def m'_def runJob_start_def saveMeta_def setJob_def Let_def)
    have F: "files s' = fs1(metaPath e i \<mapsto> marshal m')"
      using j False idj
      by (cases sp) (simp_all add: s'_def m'_def fs1_def runJob_start_def saveMeta_def setJob_def Let_def)
    have Q: "queue s' = queue s"
      using j False
      by (cases sp) (simp_all add: s'_def runJob_start_def saveMeta_def setJob_def Let_def)
    have H: "hooks s' = hooks s"
      using j False
      by (cases sp) (simp_all add: s'_def runJob_start_def saveMeta_def setJob_def Let_def)
    have R: "runningJobs s' = runningJobs s"
      using j False
      by (cases sp) (simp_all add: s'_def runJob_start_def saveMeta_def setJob_def Let_def)
    have "Inv marshal e s'"
    proof (rule Inv_update [OF I J])
      show "savedRecords k (trace s') = savedRecords k (trace s)" if "k \<noteq> i" for k
        using that by (simp add: T savedRecords_snoc_Saved idm)
      show "distinct (queue s')" using InvD(1) [OF I] by (simp add: Q)
      show "set (queue s') \<subseteq> insert i (set (queue s))" by (auto simp: Q)
      show "set (hooks s') \<subseteq> insert i (set (hooks s))" by (auto simp: H)
      show "runningJobs s' k = runningJobs s k" if "k \<noteq> i" for k by (simp add: R)
      show "files s' (metaPath e k) = files s (metaPath e k)" if "k \<noteq> i" for k
        using that by (simp add: F fs1_def metaPath_eq_iff path_neq)
      show "jobInv marshal e s' i"
      proof (rule jobInv_SomeI)
        show "jobs s' i = Some j'" by (simp add: J)
        show "ID (meta j') = i" by (simp add: j'_def idm)
        show "inputFilePath j' = [] \<or> inputFilePath j' = stagedInputPath e i"
          using inp by (simp add: j'_def)
        show "recOK (map row (savedRecords i (trace s'))) j'"
          using rec j(2)
          by (cases sp)
             (simp_all add: T savedRecords_snoc_Saved idj recOK_def Let_def j'_def m'_def row_def)
        show "pc j' = Queued" if "i \<in> set (queue s')"
          using that nq by (simp add: Q)
        show "pc j' = Returned" if "i \<in> set (hooks s')"
          using that nh by (simp add: H)
        show "k = i \<and> (pc j' = Registered \<or> pc j' = Waited)"
          if "runningJobs s' i = Some k" for k
          using that nr by (simp add: R)
        show "files s' (metaPath e i) = Some (marshal (last (savedRecords i (trace s'))))"
          by (simp add: F T savedRecords_snoc_Saved idm)
      qed
    qed
    then show ?thesis by (simp add: s'_def)
  qed
qed

lemma Inv_submit:
  assumes I: "Inv marshal e s" and new: "jobs s i = None"
  shows "Inv marshal e (snd (submitJob marshal e fixedArgs req i now s))"
proof (cases req)
  case None
  then show ?thesis using I by (simp add: submitJob_def)
next
  case (Some r)
  note Ii = InvD(2) [OF I, of i]
  have none: "savedRecords i (trace s) = []" "i \<notin> set (queue s)" "i \<notin> set (hooks s)"
    using Ii new by (simp_all add: jobInv_def)
  have nr: "runningJobs s i = None"
    using Ii new by (cases "runningJobs s i") (auto simp: jobInv_def pcOf_def)
  define m' where "m' = \<lparr>ID = i,
      Args = (if fixedArgs \<noteq> [] then fixedArgs @ rArgs r else rArgs r),
      MimeType = rMimeType r, Webhook = rWebhook r,
      Status = ''IN_QUEUE'', PID = 0, EnqueuedAt = now,
      StartedAt = zeroTime, CompletedAt = zeroTime\<rparr>"
  define j' where "j' = \<lparr>meta = m',
      inputFilePath = (if rBody r \<noteq> [] then stagedInputPath e i else []),
      pc = Queued, stdin = None, canceled = False, waitErr = False\<rparr>"
  define s' where "s' = snd (submitJob marshal e fixedArgs req i now s)"
  have idm: "ID m' = i" by (simp add: m'_def)
  have J: "jobs s' = (jobs s)(i \<mapsto> j')"
    using Some by (simp add: s'_def j'_def m'_def submitJob_def saveMeta_def setJob_def Let_def)
  have T: "trace s' = trace s @ [Saved m']"
    using Some by (simp add: s'_def m'_def submitJob_def saveMeta_def setJob_def Let_def)
  have F: "files s' = (if rBody r \<noteq> [] then (files s)(stagedInputPath e i \<mapsto> rBody r) else files s)
                        (metaPath e i \<mapsto> marshal m')"
    using Some by (simp add: s'_def m'_def submitJob_def saveMeta_def setJob_def Let_def)
  have Q: "queue s' = queue s @ [i]"
    using Some by (simp add: s'_def submitJob_def saveMeta_def setJob_def Let_def)
  have H: "hooks s' = hooks s"
    using Some by (simp add: s'_def submitJob_def saveMeta_def setJob_def Let_def)
  have R: "runningJobs s' = runningJobs s"
    using Some by (simp add: s'_def submitJob_def saveMeta_def setJob_def Let_def)
  have "Inv marshal e s'"
  proof (rule Inv_update [OF I J])
    show "savedRecords k (trace s') = savedRecords k (trace s)" if "k \<noteq> i" for k
      using that by (simp add: T savedRecords_snoc_Saved idm)
    show "distinct (queue s')" using InvD(1) [OF I] none(2) by (simp add: Q)
    show "set (queue s') \<subseteq> insert i (set (queue s))" by (auto simp: Q)
    show "set (hooks s') \<subseteq> insert i (set (hooks s))" by (auto simp: H)
    show "runningJobs s' k = runningJobs s k" if "k \<noteq> i" for k by (simp add: R)
    show "files s' (metaPath e k) = files s (metaPath e k)" if "k \<noteq> i" for k
      using that by (simp add: F metaPath_eq_iff path_neq)
    show "jobInv marshal e s' i"
    proof (rule jobInv_SomeI)
      show "jobs s' i = Some j'" by (simp add: J)
      show "ID (meta j') = i" by (simp add: j'_def idm)
      show "inputFilePath j' = [] \<or> inputFilePath j' = stagedInputPath e i"
        by (simp add: j'_def)
      show "recOK (map row (savedRecords i (trace s'))) j'"
        using none(1)
        by (simp add: T savedRecords_snoc_Saved recOK_def Let_def j'_def m'_def row_def)
      show "pc j' = Queued" if "i \<in> set (queue s')"
        by (simp add: j'_def)
      show "pc j' = Returned" if "i \<in> set (hooks s')"
        using that none(3) by (simp add: H)
      show "k = i \<and> (pc j' = Registered \<or> pc j' = Waited)"
        if "runningJobs s' i = Some k" for k
        using that nr by (simp add: R)
      show "files s' (metaPath e i) = Some (marshal (last (savedRecords i (trace s'))))"
        by (simp add: F T savedRecords_snoc_Saved idm)
    qed
  qed
  then show ?thesis by (simp add: s'_def)
qed

text \<open>A phase that changes the job and the registry only.\<close>

lemma Inv_local:
  assumes I: "Inv marshal e s" and j: "jobs s i = Some j"
    and J: "jobs s' = (jobs s)(i \<mapsto> j')"
    and T: "\<And>k. savedRecords k (trace s') = savedRecords k (trace s)"
    and Q: "distinct (queue s')" "set (queue s') \<subseteq> set (queue s)"
    and H: "set (hooks s') \<subseteq> set (hooks s)"
    and F: "\<And>k. files s' (metaPath e k) = files s (metaPath e k)"
    and R: "\<And>k. k \<noteq> i \<Longrightarrow> runningJobs s' k = runningJobs s k"
    and m: "ID (meta j') = i" "inputFilePath j' = inputFilePath j"
    and rec: "recOK (map row (savedRecords i (trace s))) j'"
    and q: "i \<in> set (queue s') \<Longrightarrow> pc j' = Queued"
    and h: "i \<in> set (hooks s) \<Longrightarrow> pc j' = Returned"
    and r: "\<And>k. runningJobs s' i = Some k \<Longrightarrow> k = i \<and> (pc j' = Registered \<or> pc j' = Waited)"
  shows "Inv marshal e s'"
proof (rule Inv_update [OF I J])
  note Ii = InvD(2) [OF I, of i]
  show "savedRecords k (trace s') = savedRecords k (trace s)" if "k \<noteq> i" for k
    by (rule T)
  show "distinct (queue s')" by (rule Q(1))
  show "set (queue s') \<subseteq> insert i (set (queue s))" using Q(2) by auto
  show "set (hooks s') \<subseteq> insert i (set (hooks s))" using H by auto
  show "runningJobs s' k = runningJobs s k" if "k \<noteq> i" for k using that by (rule R)
  show "files s' (metaPath e k) = files s (metaPath e k)" if "k \<noteq> i" for k by (rule F)
  show "jobInv marshal e s' i"
  proof (rule jobInv_SomeI)
    show "jobs s' i = Some j'" by (simp add: J)
    show "ID (meta j') = i" by (rule m(1))
    show "inputFilePath j' = [] \<or> inputFilePath j' = stagedInputPath e i"
      using jobInv_SomeD(2) [OF Ii j] by (simp add: m(2))
    show "recOK (map row (savedRecords i (trace s'))) j'" using rec by (simp add: T)
    show "pc j' = Queued" if "i \<in> set (queue s')" using that by (rule q)
    show "pc j' = Returned" if "i \<in> set (hooks s')" using that h H by auto
    show "k = i \<and> (pc j' = Registered \<or> pc j' = Waited)" if "runningJobs s' i = Some k" for k
      using that by (rule r)
    show "files s' (metaPath e i) = Some (marshal (last (savedRecords i (trace s'))))"
      if "savedRecords i (trace s') \<noteq> []"
      using that jobInv_file [OF Ii] by (simp add: T F)
  qed
qed

lemma recOK_of:
  assumes "Inv marshal e s" and "jobs s i = Some j"
  shows "recOK (map row (savedRecords i (trace s))) j"
  using jobInv_SomeD(3) [OF InvD(2) [OF assms(1)] assms(2)] by (simp add: rows_def)

lemma Inv_workerLoop:
  assumes I: "Inv marshal e s"
  shows "Inv marshal e (workerLoop s)"
proof (cases "queue s")
  case Nil
  then show ?thesis using I by (simp add: workerLoop_def)
next
  case (Cons i q)
  note Ii = InvD(2) [OF I, of i]
  from Ii Cons obtain j where j: "jobs s i = Some j"
    by (cases "jobs s i") (auto simp: jobInv_def)
  have pcj: "pc j = Queued"
    using jobInv_SomeD(4) [OF Ii j] Cons by simp
  have d: "distinct (i # q)" using InvD(1) [OF I] Cons by simp
  have nh: "i \<notin> set (hooks s)"
    using jobInv_SomeD(5) [OF Ii j] pcj by auto
  have nr: "runningJobs s i = None"
    using jobInv_running(2) [OF Ii _ j] pcj by (cases "runningJobs s i") auto
  have eq: "workerLoop s = setJob i (j\<lparr>pc := Ready\<rparr>) (s\<lparr>queue := q\<rparr>)"
    using Cons j by (simp add: workerLoop_def)
  show ?thesis
    unfolding eq
  proof (rule Inv_local [OF I j])
    show "recOK (map row (savedRecords i (trace s))) (j\<lparr>pc := Ready\<rparr>)"
      using recOK_of [OF I j] pcj by (simp add: recOK_def Let_def)
    show "pc (j\<lparr>pc := Ready\<rparr>) = Queued"
      if "i \<in> set (queue (setJob i (j\<lparr>pc := Ready\<rparr>) (s\<lparr>queue := q\<rparr>)))"
      using that d by (simp add: setJob_def)
    show "pc (j\<lparr>pc := Ready\<rparr>) = Returned" if "i \<in> set (hooks s)"
      using that nh by simp
    show "k = i \<and> (pc (j\<lparr>pc := Ready\<rparr>) = Registered \<or> pc (j\<lparr>pc := Ready\<rparr>) = Waited)"
      if "runningJobs (setJob i (j\<lparr>pc := Ready\<rparr>) (s\<lparr>queue := q\<rparr>)) i = Some k" for k
      using that nr by (simp add: setJob_def)
  qed (use Cons d jobInv_SomeD(1) [OF Ii j] in \<open>auto simp: setJob_def\<close>)
qed

lemma Inv_register:
  assumes I: "Inv marshal e s" and pc: "pcOf s i = Some Started"
  shows "Inv marshal e (runJob_register i s)"
proof -
  from pc obtain j where j: "jobs s i = Some j" "pc j = Started"
    by (auto simp: pcOf_def)
  note Ii = InvD(2) [OF I, of i]
  note idj = jobInv_SomeD(1) [OF Ii j(1)]
  have nq: "i \<notin> set (queue s)"
    using jobInv_SomeD(4) [OF Ii j(1)] j(2) by auto
  have nh: "i \<notin> set (hooks s)"
    using jobInv_SomeD(5) [OF Ii j(1)] j(2) by auto
  have eq: "runJob_register i s =
      setJob i (j\<lparr>pc := Registered\<rparr>) (s\<lparr>runningJobs := (runningJobs s)(i \<mapsto> i)\<rparr>)"
    using j idj by (simp add: runJob_register_def)
  show ?thesis
    unfolding eq
  proof (rule Inv_local [OF I j(1)])
    show "recOK (map row (savedRecords i (trace s))) (j\<lparr>pc := Registered\<rparr>)"
      using recOK_of [OF I j(1)] j(2) by (simp add: recOK_def Let_def)
  qed (use nq nh idj InvD(1) [OF I] in \<open>auto simp: setJob_def\<close>)
qed

lemma Inv_wait:
  assumes I: "Inv marshal e s" and pc: "pcOf s i = Some Registered"
  shows "Inv marshal e (runJob_wait e i err now out log s)"
proof -
  from pc obtain j where j: "jobs s i = Some j" "pc j = Registered"
    by (auto simp: pcOf_def)
  note Ii = InvD(2) [OF I, of i]
  note idj = jobInv_SomeD(1) [OF Ii j(1)]
  have nq: "i \<notin> set (queue s)"
    using jobInv_SomeD(4) [OF Ii j(1)] j(2) by auto
  have nh: "i \<notin> set (hooks s)"
    using jobInv_SomeD(5) [OF Ii j(1)] j(2) by auto
  have rk: "runningJobs s i = Some k \<Longrightarrow> k = i" for k
    using jobInv_running(1) [OF Ii _ j(1)] by simp
  define j' where "j' = j\<lparr>meta := (meta j)\<lparr>CompletedAt := now\<rparr>, waitErr := err, pc := Waited\<rparr>"
  have eq: "runJob_wait e i err now out log s =
      setJob i j' (s\<lparr>files := (files s)(stdoutPath e i \<mapsto> out, stderrPath e i \<mapsto> log)\<rparr>)"
    using j idj by (simp add: runJob_wait_def j'_def)
  show ?thesis
    unfolding eq
  proof (rule Inv_local [OF I j(1)])
    show "recOK (map row (savedRecords i (trace s))) j'"
      using recOK_of [OF I j(1)] j(2) by (simp add: recOK_def Let_def j'_def row_def)
  qed (use nq nh idj rk InvD(1) [OF I] in \<open>auto simp: setJob_def j'_def path_neq\<close>)
qed

lemma Inv_unregister:
  assumes I: "Inv marshal e s" and pc: "pcOf s i = Some Waited"
  shows "Inv marshal e (runJob_unregister i s)"
proof -
  from pc obtain j where j: "jobs s i = Some j" "pc j = Waited"
    by (auto simp: pcOf_def)
  note Ii = InvD(2) [OF I, of i]
  note idj = jobInv_SomeD(1) [OF Ii j(1)]
  have nq: "i \<notin> set (queue s)"
    using jobInv_SomeD(4) [OF Ii j(1)] j(2) by auto
  have nh: "i \<notin> set (hooks s)"
    using jobInv_SomeD(5) [OF Ii j(1)] j(2) by auto
  have eq: "runJob_unregister i s =
      setJob i (j\<lparr>pc := Unregistered\<rparr>) (s\<lparr>runningJobs := (runningJobs s)(i := None)\<rparr>)"
    using j idj by (simp add: runJob_unregister_def)
  show ?thesis
    unfolding eq
  proof (rule Inv_local [OF I j(1)])
    show "recOK (map row (savedRecords i (trace s))) (j\<lparr>pc := Unregistered\<rparr>)"
      using recOK_of [OF I j(1)] j(2) by (simp add: recOK_def Let_def)
  qed (use nq nh idj InvD(1) [OF I] in \<open>auto simp: setJob_def\<close>)
qed

lemma Inv_cancelJob:
  assumes I: "Inv marshal e s"
  shows "Inv marshal e (cancelJob i s)"
proof (cases "jobs s i")
  case None
  then show ?thesis using I by (simp add: cancelJob_def)
next
  case (Some j)
  note Ii = InvD(2) [OF I, of i]
  have eq: "cancelJob i s = setJob i (j\<lparr>canceled := True\<rparr>) s"
    using Some by (simp add: cancelJob_def)
  show ?thesis
    unfolding eq
  proof (rule Inv_local [OF I Some])
    show "recOK (map row (savedRecords i (trace s))) (j\<lparr>canceled := True\<rparr>)"
      using recOK_of [OF I Some] recOK_same [of "j\<lparr>canceled := True\<rparr>" j] by simp
    show "pc (j\<lparr>canceled := True\<rparr>) = Queued"
      if "i \<in> set (queue (setJob i (j\<lparr>canceled := True\<rparr>) s))"
      using that jobInv_SomeD(4) [OF Ii Some] by (simp add: setJob_def)
    show "pc (j\<lparr>canceled := True\<rparr>) = Returned" if "i \<in> set (hooks s)"
      using that jobInv_SomeD(5) [OF Ii Some] by simp
    show "k = i \<and> (pc (j\<lparr>canceled := True\<rparr>) = Registered \<or> pc (j\<lparr>canceled := True\<rparr>) = Waited)"
      if "runningJobs (setJob i (j\<lparr>canceled := True\<rparr>) s) i = Some k" for k
      using that jobInv_running [OF Ii _ Some, of k] by (simp add: setJob_def)
  qed (use jobInv_SomeD(1) [OF Ii Some] InvD(1) [OF I] in \<open>auto simp: setJob_def\<close>)
qed

lemma jobHandler_state:
  "snd (jobHandler unmarshal e meth path s) = s \<or>
   (\<exists>k. snd (jobHandler unmarshal e meth path s) = cancelJob k s)"
  by (auto simp: jobHandler_def Let_def split: sum.splits option.splits)

lemma Inv_jobHandler:
  assumes "Inv marshal e s"
  shows "Inv marshal e (snd (jobHandler unmarshal e meth path s))"
  using jobHandler_state [of unmarshal e meth path s] assms Inv_cancelJob [OF assms]
  by auto

lemma Inv_notify:
  assumes I: "Inv marshal e s"
  shows "Inv marshal e (notify i s)"
proof (cases "i \<in> set (hooks s)")
  case False
  then show ?thesis using I by (simp add: notify_def)
next
  case True
  note Ii = InvD(2) [OF I, of i]
  from Ii True obtain j where j: "jobs s i = Some j"
    by (cases "jobs s i") (auto simp: jobInv_def)
  have pcj: "pc j = Returned"
    using jobInv_SomeD(5) [OF Ii j] True by simp
  have eq: "notify i s = sendWebhook (meta j) (s\<lparr>hooks := remove1 i (hooks s)\<rparr>)"
    using True j by (simp add: notify_def)
  have J: "jobs (notify i s) = (jobs s)(i \<mapsto> j)"
    using j by (auto simp: eq sendWebhook_def)
  show ?thesis
  proof (rule Inv_local [OF I j J])
    show "recOK (map row (savedRecords i (trace s))) j" by (rule recOK_of [OF I j])
    show "pc j = Queued" if "i \<in> set (queue (notify i s))"
      using that jobInv_SomeD(4) [OF Ii j] by (simp add: eq sendWebhook_def)
    show "pc j = Returned" if "i \<in> set (hooks s)" by (rule pcj)
    show "k = i \<and> (pc j = Registered \<or> pc j = Waited)"
      if "runningJobs (notify i s) i = Some k" for k
      using that jobInv_running [OF Ii _ j, of k] by (simp add: eq sendWebhook_def)
    show "set (hooks (notify i s)) \<subseteq> set (hooks s)"
      using set_remove1_subset [of i "hooks s"] by (simp add: eq sendWebhook_def)
  qed (use jobInv_SomeD(1) [OF Ii j] InvD(1) [OF I] in
        \<open>auto simp: eq sendWebhook_def savedRecords_snoc_Posted\<close>)
qed

lemma Inv_step:
  assumes "Inv marshal e s"
  shows "Inv marshal e (step marshal unmarshal e fixedArgs ev s)"
  using assms
  by (cases ev)
     (simp_all add: step_def Inv_submit Inv_workerLoop Inv_start Inv_register Inv_wait
        Inv_unregister Inv_finish Inv_jobHandler Inv_notify)

lemma run_Nil: "run marshal unmarshal e fixedArgs [] s = s"
  by (simp add: run_def)

lemma run_Cons:
  "run marshal unmarshal e fixedArgs (ev # evs) s =
   run marshal unmarshal e fixedArgs evs (step marshal unmarshal e fixedArgs ev s)"
  by (simp add: run_def)

lemma run_append:
  "run marshal unmarshal e fixedArgs (evs @ evs') s =
   run marshal unmarshal e fixedArgs evs' (run marshal unmarshal e fixedArgs evs s)"
  by (simp add: run_def)

lemma Inv_run:
  assumes "Inv marshal e s"
  shows "Inv marshal e (run marshal unmarshal e fixedArgs evs s)"
  using assms
  by (induction evs arbitrary: s) (simp_all add: run_Nil run_Cons Inv_step)

lemma Inv_reachable: "Inv marshal e (run marshal unmarshal e fixedArgs evs (init fs))"
  by (rule Inv_run [OF Inv_init])

section \<open>Lemmas: what a step leaves alone\<close>

lemma postedFor_append:
  "postedFor i (es @ fs) = postedFor i es @ postedFor i fs"
  by (induction i es rule: postedFor.induct) auto

lemma unchanged_refl: "unchanged e k s s"
  by (simp add: unchanged_def)

lemma unchanged_trans:
  "unchanged e k s s' \<Longrightarrow> unchanged e k s' s'' \<Longrightarrow> unchanged e k s s''"
  by (simp add: unchanged_def)

lemma submit_frame:
  assumes "k \<noteq> i"
  shows "unchanged e k s (snd (submitJob marshal e fixedArgs req i now s))"
  using assms
  by (cases req)
     (simp_all add: unchanged_def submitJob_def saveMeta_def setJob_def Let_def
        savedRecords_snoc_Saved metaPath_eq_iff path_neq)

lemma workerLoop_frame:
  assumes "k \<notin> set (queue s)"
  shows "unchanged e k s (workerLoop s)"
  using assms
  by (auto simp: unchanged_def workerLoop_def setJob_def split: list.splits option.splits)

lemma start_frame:
  assumes "jobs s i = Some j" and "ID (meta j) = i" and "k \<noteq> i"
  shows "unchanged e k s (runJob_start marshal e i sp now s)"
  using assms
  by (cases sp)
     (simp_all add: unchanged_def runJob_start_def saveMeta_def setJob_def Let_def
        savedRecords_snoc_Saved metaPath_eq_iff path_neq)

lemma register_frame:
  assumes "jobs s i = Some j" and "ID (meta j) = i" and "k \<noteq> i"
  shows "unchanged e k s (runJob_register i s)"
  using assms by (simp add: unchanged_def runJob_register_def setJob_def)

lemma wait_frame:
  assumes "jobs s i = Some j" and "ID (meta j) = i" and "k \<noteq> i"
  shows "unchanged e k s (runJob_wait e i err now out log s)"
  using assms by (simp add: unchanged_def runJob_wait_def setJob_def path_neq)

lemma unregister_frame:
  assumes "jobs s i = Some j" and "ID (meta j) = i" and "k \<noteq> i"
  shows "unchanged e k s (runJob_unregister i s)"
  using assms by (simp add: unchanged_def runJob_unregister_def setJob_def)

lemma finish_frame:
  assumes "jobs s i = Some j" and "ID (meta j) = i" and "k \<noteq> i"
    and "inputFilePath j = [] \<or> inputFilePath j = stagedInputPath e i"
  shows "unchanged e k s (runJob_finish marshal e i s)"
  using assms
  by (auto simp: unchanged_def runJob_finish_def saveMeta_def setJob_def Let_def
        savedRecords_snoc_Saved metaPath_eq_iff path_neq)

lemma cancelJob_frame:
  assumes "k \<noteq> i"
  shows "unchanged e k s (cancelJob i s)"
  using assms by (simp add: unchanged_def cancelJob_def setJob_def split: option.splits)

lemma jobHandler_frame:
  assumes "runningJobs s k = None" and "\<And>i i'. runningJobs s i = Some i' \<Longrightarrow> i' = i"
  shows "unchanged e k s (snd (jobHandler unmarshal e meth path s))"
proof -
  have "unchanged e k s (cancelJob i' s)" if r: "runningJobs s i = Some i'" for i i'
  proof -
    have "i' = i" using assms(2) [OF r] .
    then have "k \<noteq> i'" using r assms(1) by auto
    then show ?thesis by (rule cancelJob_frame)
  qed
  then show ?thesis
    by (auto simp: jobHandler_def Let_def unchanged_refl split: sum.splits option.splits)
qed

lemma notify_frame: "unchanged e k s (notify i s)"
  using set_remove1_subset [of i "hooks s"]
  by (auto simp: unchanged_def notify_def sendWebhook_def savedRecords_snoc_Posted
        split: option.splits)

text \<open>Once \<open>runJob\<close> has returned, no step changes anything about the job.\<close>

lemma step_Returned:
  assumes I: "Inv marshal e s" and j: "jobs s k = Some j" and pc: "pc j = Returned"
  shows "unchanged e k s (step marshal unmarshal e fixedArgs ev s)"
proof (cases "crashed s")
  case True
  then show ?thesis by (simp add: step_def unchanged_refl)
next
  case False
  note Ik = InvD(2) [OF I, of k]
  have nq: "k \<notin> set (queue s)"
    using jobInv_SomeD(4) [OF Ik j] pc by auto
  have nr: "runningJobs s k = None"
    using jobInv_running(2) [OF Ik _ j] pc by (cases "runningJobs s k") auto
  have other: "k \<noteq> i \<and> (\<exists>ji. jobs s i = Some ji \<and> ID (meta ji) = i \<and>
      (inputFilePath ji = [] \<or> inputFilePath ji = stagedInputPath e i))"
    if "pcOf s i = Some c" "c \<noteq> Returned" for i c
  proof -
    from that obtain ji where ji: "jobs s i = Some ji" "pc ji = c"
      by (auto simp: pcOf_def)
    have "k \<noteq> i" using ji j pc that(2) by auto
    then show ?thesis
      using ji jobInv_SomeD(1,2) [OF InvD(2) [OF I, of i] ji(1)] by auto
  qed
  show ?thesis
  proof (cases ev)
    case (Submit req i now)
    then show ?thesis
      using False j submit_frame [of k i e s marshal fixedArgs req now]
      by (cases "k = i") (auto simp: step_def unchanged_refl)
  next
    case Dispatch
    then show ?thesis using False nq by (simp add: step_def workerLoop_frame)
  next
    case (Start i sp now)
    then show ?thesis
      using False other [of i Ready] by (auto simp: step_def unchanged_refl start_frame)
  next
    case (Register i)
    then show ?thesis
      using False other [of i Started] by (auto simp: step_def unchanged_refl register_frame)
  next
    case (WaitReturns i err now out log)
    then show ?thesis
      using False other [of i Registered] by (auto simp: step_def unchanged_refl wait_frame)
  next
    case (Unregister i)
    then show ?thesis
      using False other [of i Waited] by (auto simp: step_def unchanged_refl unregister_frame)
  next
    case (Finish i)
    then show ?thesis
      using False other [of i Unregistered] by (auto simp: step_def unchanged_refl finish_frame)
  next
    case (Http meth path)
    have "unchanged e k s (snd (jobHandler unmarshal e meth path s))"
    proof (rule jobHandler_frame [OF nr])
      show "i' = i" if "runningJobs s i = Some i'" for i i'
        using that InvD(2) [OF I, of i] by (simp add: jobInv_def)
    qed
    then show ?thesis using False Http by (simp add: step_def unchanged_refl)
  next
    case (Notify i)
    then show ?thesis using False by (simp add: step_def notify_frame)
  qed
qed

lemma run_Returned:
  assumes "Inv marshal e s" and "jobs s k = Some j" and "pc j = Returned"
  shows "unchanged e k s (run marshal unmarshal e fixedArgs evs s)"
  using assms
proof (induction evs arbitrary: s)
  case Nil
  then show ?case by (simp add: run_Nil unchanged_refl)
next
  case (Cons ev evs)
  let ?s1 = "step marshal unmarshal e fixedArgs ev s"
  have u: "unchanged e k s ?s1"
    by (rule step_Returned [OF Cons.prems])
  then have j1: "jobs ?s1 k = Some j" using Cons.prems(2) by (simp add: unchanged_def)
  have "unchanged e k ?s1 (run marshal unmarshal e fixedArgs evs ?s1)"
    by (rule Cons.IH [OF Inv_step [OF Cons.prems(1)] j1 Cons.prems(3)])
  then show ?case using u by (simp add: run_Cons unchanged_trans [OF u])
qed

text \<open>The trace only grows.\<close>

lemma step_trace: "\<exists>t. trace (step marshal unmarshal e fixedArgs ev s) = trace s @ t"
proof -
  have h: "\<exists>t. trace (snd (jobHandler unmarshal e meth path s)) = trace s @ t" for meth path
    using jobHandler_state [of unmarshal e meth path s]
    by (auto simp: cancelJob_def setJob_def split: option.splits)
  show ?thesis
    by (cases ev)
       (auto simp: step_def h submitJob_def workerLoop_def runJob_start_def runJob_register_def
          runJob_wait_def runJob_unregister_def runJob_finish_def notify_def sendWebhook_def
          saveMeta_def setJob_def Let_def
          split: option.splits list.splits spawn.splits)
qed

lemma run_trace: "\<exists>t. trace (run marshal unmarshal e fixedArgs evs s) = trace s @ t"
proof (induction evs arbitrary: s)
  case Nil
  then show ?case by (simp add: run_Nil)
next
  case (Cons ev evs)
  obtain t where t: "trace (step marshal unmarshal e fixedArgs ev s) = trace s @ t"
    using step_trace by blast
  obtain t' where "trace (run marshal unmarshal e fixedArgs evs (step marshal unmarshal e fixedArgs ev s)) =
      trace (step marshal unmarshal e fixedArgs ev s) @ t'"
    using Cons.IH by blast
  then show ?case using t by (simp add: run_Cons)
qed

section \<open>Lemmas: the records of a job\<close>

lemma recOK_shape:
  assumes "recOK rs j"
  shows "rs = [(''IN_QUEUE'', 0, zeroTime, zeroTime)] \<or>
         (\<exists>t. rs = [(''IN_QUEUE'', 0, zeroTime, zeroTime), (''FAILED'', 0, t, t)]) \<or>
         (\<exists>p t. rs = [(''IN_QUEUE'', 0, zeroTime, zeroTime), (''IN_PROGRESS'', p, t, zeroTime)]) \<or>
         (\<exists>p t c st. rs = [(''IN_QUEUE'', 0, zeroTime, zeroTime), (''IN_PROGRESS'', p, t, zeroTime),
                            (st, p, t, c)] \<and>
                      (st = ''CANCELED'' \<or> st = ''FAILED'' \<or> st = ''COMPLETED''))"
  using assms by (cases "pc j") (auto simp: recOK_def Let_def row_def)

lemma recOK_terminal:
  assumes "recOK rs j" and "rs \<noteq> []"
    and "fst (last rs) = ''CANCELED'' \<or> fst (last rs) = ''FAILED'' \<or> fst (last rs) = ''COMPLETED''"
  shows "pc j = Returned"
  using assms by (cases "pc j") (auto simp: recOK_def Let_def row_def)

lemma rows_shape:
  assumes "Inv marshal e s"
  shows "rows i s = [] \<or> rows i s = [(''IN_QUEUE'', 0, zeroTime, zeroTime)] \<or>
         (\<exists>t. rows i s = [(''IN_QUEUE'', 0, zeroTime, zeroTime), (''FAILED'', 0, t, t)]) \<or>
         (\<exists>p t. rows i s = [(''IN_QUEUE'', 0, zeroTime, zeroTime), (''IN_PROGRESS'', p, t, zeroTime)]) \<or>
         (\<exists>p t c st. rows i s = [(''IN_QUEUE'', 0, zeroTime, zeroTime), (''IN_PROGRESS'', p, t, zeroTime),
                            (st, p, t, c)] \<and>
                      (st = ''CANCELED'' \<or> st = ''FAILED'' \<or> st = ''COMPLETED''))"
proof (cases "jobs s i")
  case None
  then have "savedRecords i (trace s) = []"
    using InvD(2) [OF assms, of i] by (simp add: jobInv_def)
  then show ?thesis by (simp add: rows_def)
next
  case (Some j)
  show ?thesis
    using recOK_shape [OF jobInv_SomeD(3) [OF InvD(2) [OF assms] Some]] by blast
qed

lemma map_Status_rows: "map Status (savedRecords i (trace s)) = map fst (rows i s)"
  by (simp add: rows_def row_def)

lemma map_Status_PID_rows:
  "map (\<lambda>m. (Status m, PID m)) (savedRecords i (trace s)) = map (\<lambda>r. (fst r, fst (snd r))) (rows i s)"
  by (simp add: rows_def row_def)

lemma terminal_Returned:
  assumes I: "Inv marshal e s" and ne: "rows i s \<noteq> []"
    and t: "fst (last (rows i s)) = ''CANCELED'' \<or> fst (last (rows i s)) = ''FAILED'' \<or>
            fst (last (rows i s)) = ''COMPLETED''"
  shows "\<exists>j. jobs s i = Some j \<and> pc j = Returned"
proof (cases "jobs s i")
  case None
  then have "savedRecords i (trace s) = []"
    using InvD(2) [OF I, of i] by (simp add: jobInv_def)
  then show ?thesis using ne by (simp add: rows_def)
next
  case (Some j)
  then show ?thesis
    using recOK_terminal [OF jobInv_SomeD(3) [OF InvD(2) [OF I] Some] ne t] by simp
qed


lemma start_SpawnErr_state:
  assumes I: "Inv marshal e s" and j: "jobs s i = Some j" and pc: "pc j = Ready"
    and a: "Args (meta j) \<noteq> []"
  shows "\<exists>j1. jobs (runJob_start marshal e i SpawnErr now s) i = Some j1 \<and> pc j1 = Returned \<and>
           PID (meta j1) = 0 \<and>
           rows i (runJob_start marshal e i SpawnErr now s) =
             [(''IN_QUEUE'', 0, zeroTime, zeroTime), (''FAILED'', 0, now, now)] \<and>
           runningJobs (runJob_start marshal e i SpawnErr now s) = runningJobs s"
proof -
  note Ii = InvD(2) [OF I, of i]
  note idj = jobInv_SomeD(1) [OF Ii j]
  have rec: "rows i s = [(''IN_QUEUE'', 0, zeroTime, zeroTime)]"
      "row (meta j) = (''IN_QUEUE'', 0, zeroTime, zeroTime)"
    using jobInv_SomeD(3) [OF Ii j] pc by (simp_all add: recOK_def Let_def)
  show ?thesis
    using j a idj rec
    by (simp add: runJob_start_def saveMeta_def setJob_def Let_def rows_def row_def
          savedRecords_snoc_Saved)
qed


section \<open>Lemmas: evaluation and request paths\<close>

lemmas eval_defs =
  run_def step_def init_def submitJob_def workerLoop_def runJob_start_def runJob_register_def
  runJob_wait_def runJob_unregister_def runJob_finish_def notify_def sendWebhook_def
  saveMeta_def setJob_def cancelJob_def jobHandler_def loadMeta_def pcOf_def Let_def
  metaPath_def stdoutPath_def stderrPath_def stagedInputPath_def getJobsDir_def
  strings_TrimPrefix_def strings_HasPrefix_def webhookPayload_def zeroMeta_def zeroTime_def


lemma TrimPrefix_jobs: "strings_TrimPrefix (''/jobs/'' @ x) ''/jobs/'' = x"
  by (simp add: strings_TrimPrefix_def strings_HasPrefix_def)

lemma Split_nonempty: "strings_Split xs c \<noteq> []"
  by (induction xs) (auto split: list.splits)

lemma Split_no_sep: "c \<notin> set xs \<Longrightarrow> strings_Split xs c = [xs]"
  by (induction xs) (auto split: list.splits)

lemma Split_append:
  "c \<notin> set xs \<Longrightarrow> strings_Split (xs @ c # ys) c = xs # strings_Split ys c"
  by (induction xs) (auto split: list.splits simp: Split_nonempty)

lemma Split_endpoint:
  "CHR ''/'' \<notin> set i \<Longrightarrow> CHR ''/'' \<notin> set ep \<Longrightarrow>
   strings_Split (i @ CHR ''/'' # ep) CHR ''/'' = [i, ep]"
  by (simp add: Split_append Split_no_sep)

lemma jobHandler_result:
  assumes "CHR ''/'' \<notin> set i"
  shows "jobHandler unmarshal e meth (''/jobs/'' @ i @ ''/result'') s =
     (case loadMeta unmarshal e (files s) i of
        Inl err \<Rightarrow> (HttpError ''Result not available'' 404, s)
      | Inr m \<Rightarrow> if Status m = ''COMPLETED'' then (ServeFile (stdoutPath e i), s)
                 else (HttpError ''Result not available'' 404, s))"
proof -
  have "strings_Split (i @ ''/result'') CHR ''/'' = [i, ''result'']"
    using Split_endpoint [OF assms, of "''result''"] by simp
  then have parts:
    "strings_Split (strings_TrimPrefix (''/jobs/'' @ i @ ''/result'') ''/jobs/'') CHR ''/'' = [i, ''result'']"
    by (simp only: TrimPrefix_jobs)
  show ?thesis
    unfolding jobHandler_def parts Let_def
    by (simp add: stdoutPath_def split: sum.splits)
qed

lemma jobHandler_status:
  assumes "CHR ''/'' \<notin> set i"
  shows "jobHandler unmarshal e meth (''/jobs/'' @ i @ ''/status'') s =
     (case loadMeta unmarshal e (files s) i of
        Inl err \<Rightarrow> (HttpError ''Job not found'' 404, s)
      | Inr m \<Rightarrow> (EncodeMeta m, s))"
proof -
  have "strings_Split (i @ ''/status'') CHR ''/'' = [i, ''status'']"
    using Split_endpoint [OF assms, of "''status''"] by simp
  then have parts:
    "strings_Split (strings_TrimPrefix (''/jobs/'' @ i @ ''/status'') ''/jobs/'') CHR ''/'' = [i, ''status'']"
    by (simp only: TrimPrefix_jobs)
  show ?thesis
    unfolding jobHandler_def parts Let_def
    by (simp split: sum.splits)
qed


section \<open>Lemmas: the sort of the listing\<close>

lemma mset_insertSlice: "mset (insertSlice lt x xs) = add_mset x (mset xs)"
  by (induction xs) auto

lemma mset_foldl_insertSlice:
  "mset (foldl (\<lambda>acc x. insertSlice lt x acc) acc xs) = mset acc + mset xs"
  by (induction xs arbitrary: acc) (auto simp: mset_insertSlice)

lemma mset_sort_Slice: "mset (sort_Slice lt xs) = mset xs"
  by (simp add: sort_Slice_def mset_foldl_insertSlice)

lemma set_insertSlice: "set (insertSlice lt x xs) = insert x (set xs)"
  by (induction xs) auto

lemma sorted_insertSlice:
  fixes key :: "'a \<Rightarrow> 'b::linorder"
  assumes "sorted_wrt (\<lambda>a b. key b \<le> key a) xs"
  shows "sorted_wrt (\<lambda>a b. key b \<le> key a) (insertSlice (\<lambda>a b. key a > key b) x xs)"
  using assms
  by (induction xs) (auto simp: set_insertSlice)

lemma sorted_foldl_insertSlice:
  fixes key :: "'a \<Rightarrow> 'b::linorder"
  assumes "sorted_wrt (\<lambda>a b. key b \<le> key a) acc"
  shows "sorted_wrt (\<lambda>a b. key b \<le> key a)
           (foldl (\<lambda>acc x. insertSlice (\<lambda>a b. key a > key b) x acc) acc xs)"
  using assms
  by (induction xs arbitrary: acc) (auto simp: sorted_insertSlice)

lemma sorted_sort_Slice:
  fixes key :: "'a \<Rightarrow> 'b::linorder"
  shows "sorted_wrt (\<lambda>a b. key b \<le> key a) (sort_Slice (\<lambda>a b. key a > key b) xs)"
  by (simp add: sort_Slice_def sorted_foldl_insertSlice)

lemma length_collectJobs:
  "length (collectJobs unmarshal e fs entries) =
   length (filter (\<lambda>(name, isDir). isDir \<and>
             (case fs (metaPath e name) of
                None \<Rightarrow> False
              | Some data \<Rightarrow> \<not> snd (unmarshal data zeroMeta))) entries)"
  by (induction entries) (auto simp: metaPath_def split: option.splits prod.splits bool.splits)

lemma jobHandler_cancel:
  assumes "CHR ''/'' \<notin> set i"
  shows "jobHandler unmarshal e ''PUT'' (''/jobs/'' @ i @ ''/cancel'') s =
     (WriteHeader 200, (case runningJobs s i of None \<Rightarrow> s | Some k \<Rightarrow> cancelJob k s))"
proof -
  have "strings_Split (i @ ''/cancel'') CHR ''/'' = [i, ''cancel'']"
    using Split_endpoint [OF assms, of "''cancel''"] by simp
  then have parts:
    "strings_Split (strings_TrimPrefix (''/jobs/'' @ i @ ''/cancel'') ''/jobs/'') CHR ''/'' = [i, ''cancel'']"
    by (simp only: TrimPrefix_jobs)
  show ?thesis
    unfolding jobHandler_def parts Let_def
    by simp
qed

lemma HasPrefix_jobs: "strings_HasPrefix (''/jobs/'' @ x) ''/jobs/''"
  by (simp add: strings_HasPrefix_def)

text \<open>The texts of two times on 27 October 2024, the day 739185 from 0001-01-01.\<close>

lemma civil_739185: "civil 739185 = (2024, 10, 27)"
  by (simp add: civil_def civilYear_def monthLengths_def isLeap_def Let_def)

lemma Format_before_clocks_go_back:
  "Format_RFC3339 (Time 63865585800 7200) = ''2024-10-27T02:30:00+02:00''"
  by (simp add: Format_RFC3339_def civil_739185 zoneText_def pad2_def pad4_def digit_def Let_def)

lemma Format_after_clocks_go_back:
  "Format_RFC3339 (Time 63865588200 3600) = ''2024-10-27T02:10:00+01:00''"
  by (simp add: Format_RFC3339_def civil_739185 zoneText_def pad2_def pad4_def digit_def Let_def)

text \<open>
  What the listing does give: the entries of the readable records, each once, with no
  \<open>enqueued_at\<close> text smaller, byte by byte, than the one after it.
\<close>

lemma listJobs_sorted_by_text:
  "\<exists>js. listJobs unmarshal e fs (Inr entries) = EncodeJobs js \<and>
     mset js = mset (collectJobs unmarshal e fs entries) \<and>
     length js = length (filter (\<lambda>(name, isDir). isDir \<and>
             (case fs (metaPath e name) of
                None \<Rightarrow> False
              | Some data \<Rightarrow> \<not> snd (unmarshal data zeroMeta))) entries) \<and>
     (\<forall>k. Suc k < length js \<longrightarrow> entryEnqueuedAt (js ! Suc k) \<le> entryEnqueuedAt (js ! k))"
proof -
  let ?js = "sort_Slice (\<lambda>a b. entryEnqueuedAt a > entryEnqueuedAt b)
               (collectJobs unmarshal e fs entries)"
  have m: "mset ?js = mset (collectJobs unmarshal e fs entries)"
    by (rule mset_sort_Slice)
  have "length ?js = length (collectJobs unmarshal e fs entries)"
    using m by (metis size_mset)
  then have l: "length ?js = length (filter (\<lambda>(name, isDir). isDir \<and>
             (case fs (metaPath e name) of
                None \<Rightarrow> False
              | Some data \<Rightarrow> \<not> snd (unmarshal data zeroMeta))) entries)"
    by (simp only: length_collectJobs)
  have "sorted_wrt (\<lambda>a b. entryEnqueuedAt b \<le> entryEnqueuedAt a) ?js"
    by (rule sorted_sort_Slice)
  then have a: "\<forall>k. Suc k < length ?js \<longrightarrow> entryEnqueuedAt (?js ! Suc k) \<le> entryEnqueuedAt (?js ! k)"
    by (simp add: sorted_wrt_iff_nth_less)
  show ?thesis
    using m l a by (simp add: listJobs_def)
qed

section \<open>The claims\<close>

text \<open>
  C1: when \<open>runJob\<close> chooses the terminal status of a job whose process has exited
  (the job is past the registry, so it was IN_PROGRESS), the record it writes has the
  status CANCELED when the job's context is cancelled, whatever \<open>cmd.Wait\<close> returned;
  otherwise FAILED when \<open>cmd.Wait\<close> returned an error; otherwise COMPLETED. The record
  is the record in memory with that status, it is the one written to the job's
  \<open>meta.json\<close>, and \<open>runJob\<close> has returned. The two flags are what they are called:
  the return of \<open>cmd.Wait\<close> records whether it returned an error, and a request to
  cancel a job that is in the registry cancels its context.
\<close>

theorem terminal_status_priority:
  "(jobs s i = Some j \<and> pc j = Unregistered \<and> \<not> crashed s \<longrightarrow>
      (let s' = step marshal unmarshal e fixedArgs (Finish i) s;
           m' = (meta j)\<lparr>Status := (if canceled j then ''CANCELED''
                                    else if waitErr j then ''FAILED'' else ''COMPLETED'')\<rparr>
       in trace s' = trace s @ [Saved m'] \<and>
          files s' (metaPath e (ID (meta j))) = Some (marshal m') \<and>
          map_option meta (jobs s' i) = Some m' \<and>
          pcOf s' i = Some Returned)) \<and>
   (jobs s i = Some j \<and> pc j = Registered \<and> \<not> crashed s \<longrightarrow>
      jobs (step marshal unmarshal e fixedArgs (WaitReturns i err now out log) s) i =
        Some (j\<lparr>meta := (meta j)\<lparr>CompletedAt := now\<rparr>, waitErr := err, pc := Waited\<rparr>)) \<and>
   (jobs s i = Some j \<and> runningJobs s i = Some i \<and> \<not> crashed s \<and> CHR ''/'' \<notin> set i \<longrightarrow>
      jobs (step marshal unmarshal e fixedArgs (Http ''PUT'' (''/jobs/'' @ i @ ''/cancel'')) s) i =
        Some (j\<lparr>canceled := True\<rparr>))"
proof -
  have a: "let s' = step marshal unmarshal e fixedArgs (Finish i) s;
           m' = (meta j)\<lparr>Status := (if canceled j then ''CANCELED''
                                    else if waitErr j then ''FAILED'' else ''COMPLETED'')\<rparr>
       in trace s' = trace s @ [Saved m'] \<and>
          files s' (metaPath e (ID (meta j))) = Some (marshal m') \<and>
          map_option meta (jobs s' i) = Some m' \<and>
          pcOf s' i = Some Returned"
    if "jobs s i = Some j" "pc j = Unregistered" "\<not> crashed s"
    using that
    by (simp add: step_def pcOf_def runJob_finish_def saveMeta_def setJob_def Let_def)
  have b: "jobs (step marshal unmarshal e fixedArgs (WaitReturns i err now out log) s) i =
        Some (j\<lparr>meta := (meta j)\<lparr>CompletedAt := now\<rparr>, waitErr := err, pc := Waited\<rparr>)"
    if "jobs s i = Some j" "pc j = Registered" "\<not> crashed s"
    using that by (simp add: step_def pcOf_def runJob_wait_def setJob_def)
  have c: "jobs (step marshal unmarshal e fixedArgs (Http ''PUT'' (''/jobs/'' @ i @ ''/cancel'')) s) i =
        Some (j\<lparr>canceled := True\<rparr>)"
    if "jobs s i = Some j" "runningJobs s i = Some i" "\<not> crashed s" "CHR ''/'' \<notin> set i"
  proof -
    have "step marshal unmarshal e fixedArgs (Http ''PUT'' (''/jobs/'' @ i @ ''/cancel'')) s =
          cancelJob i s"
      unfolding step_def using that(2,3) HasPrefix_jobs [of "i @ ''/cancel''"]
      by (simp only: event.case if_False if_True jobHandler_cancel [OF that(4)] snd_conv option.case)
    then show ?thesis using that(1) by (simp add: cancelJob_def setJob_def)
  qed
  show ?thesis using a b c by blast
qed

text \<open>
  A job whose context was cancelled and whose \<open>cmd.Wait\<close> returned an error: CANCELED.
\<close>

theorem terminal_status_priority_witness:
  "let E = \<lparr>JOBS_DIR = [], BASE_URL = [], TMPDIR = ''/tmp''\<rparr>;
       U = (\<lambda>d v. (v, True));
       M = zeroMeta\<lparr>ID := ''a'', Status := ''IN_PROGRESS'', PID := 7\<rparr>;
       J = \<lparr>meta = M, inputFilePath = [], pc = Unregistered, stdin = None,
            canceled = True, waitErr = True\<rparr>;
       S = (init Map.empty)\<lparr>jobs := [''a'' \<mapsto> J]\<rparr>;
       J2 = \<lparr>meta = M, inputFilePath = [], pc = Registered, stdin = None,
             canceled = False, waitErr = False\<rparr>;
       S2 = (init Map.empty)\<lparr>jobs := [''a'' \<mapsto> J2], runningJobs := [''a'' \<mapsto> ''a'']\<rparr>
   in jobs S ''a'' = Some J \<and> pc J = Unregistered \<and> \<not> crashed S \<and>
      trace (step Status U E [] (Finish ''a'') S) = [Saved (M\<lparr>Status := ''CANCELED''\<rparr>)] \<and>
      files (step Status U E [] (Finish ''a'') S) ''jobs/a/meta.json'' = Some ''CANCELED'' \<and>
      jobs S2 ''a'' = Some J2 \<and> pc J2 = Registered \<and> runningJobs S2 ''a'' = Some ''a'' \<and>
      \<not> crashed S2 \<and> CHR ''/'' \<notin> set ''a'' \<and>
      jobs (step Status U E [] (WaitReturns ''a'' True (Time 3 0) [] []) S2) ''a'' =
        Some (J2\<lparr>meta := M\<lparr>CompletedAt := Time 3 0\<rparr>, waitErr := True, pc := Waited\<rparr>) \<and>
      jobs (step Status U E [] (Http ''PUT'' ''/jobs/a/cancel'') S2) ''a'' = Some (J2\<lparr>canceled := True\<rparr>)"
proof -
  define E where "E = \<lparr>JOBS_DIR = [], BASE_URL = [], TMPDIR = ''/tmp''\<rparr>"
  define U :: unmarshaller where "U = (\<lambda>d v. (v, True))"
  define M where "M = zeroMeta\<lparr>ID := ''a'', Status := ''IN_PROGRESS'', PID := 7\<rparr>"
  define J where "J = \<lparr>meta = M, inputFilePath = [], pc = Unregistered, stdin = None,
            canceled = True, waitErr = True\<rparr>"
  define S where "S = (init Map.empty)\<lparr>jobs := [''a'' \<mapsto> J]\<rparr>"
  define J2 where "J2 = \<lparr>meta = M, inputFilePath = [], pc = Registered, stdin = None,
             canceled = False, waitErr = False\<rparr>"
  define S2 where "S2 = (init Map.empty)\<lparr>jobs := [''a'' \<mapsto> J2], runningJobs := [''a'' \<mapsto> ''a'']\<rparr>"
  have h1: "jobs S ''a'' = Some J" "pc J = Unregistered" "\<not> crashed S" "trace S = []"
    by (simp_all add: S_def J_def init_def)
  have h2: "jobs S2 ''a'' = Some J2" "pc J2 = Registered" "runningJobs S2 ''a'' = Some ''a''"
      "\<not> crashed S2" "CHR ''/'' \<notin> set ''a''"
    by (simp_all add: S2_def J2_def init_def)
  have m: "canceled J" "meta J = M" "ID M = ''a''" "meta J2 = M"
    by (simp_all add: J_def J2_def M_def)
  have p: "metaPath E ''a'' = ''jobs/a/meta.json''"
    by (simp add: metaPath_def getJobsDir_def E_def)
  have f: "trace (step Status U E [] (Finish ''a'') S) = [Saved (M\<lparr>Status := ''CANCELED''\<rparr>)] \<and>
      files (step Status U E [] (Finish ''a'') S) ''jobs/a/meta.json'' = Some ''CANCELED''"
    using terminal_status_priority [of S "''a''" J Status U E "[]"] h1 m p
    by (simp add: Let_def)
  have w: "jobs (step Status U E [] (WaitReturns ''a'' True (Time 3 0) [] []) S2) ''a'' =
        Some (J2\<lparr>meta := M\<lparr>CompletedAt := Time 3 0\<rparr>, waitErr := True, pc := Waited\<rparr>)"
    using terminal_status_priority [of S2 "''a''" J2 Status U E "[]" True "Time 3 0" "[]" "[]"] h2 m
    by simp
  have c: "jobs (step Status U E [] (Http ''PUT'' ''/jobs/a/cancel'') S2) ''a'' = Some (J2\<lparr>canceled := True\<rparr>)"
    using terminal_status_priority [of S2 "''a''" J2 Status U E "[]"] h2
    by simp
  show ?thesis
    using h1(1-3) h2 f w c
    unfolding Let_def E_def [symmetric] U_def [symmetric] M_def [symmetric] J_def [symmetric]
      S_def [symmetric] J2_def [symmetric] S2_def [symmetric]
    by simp
qed

text \<open>
  C2: in every state the server reaches from its start, by any events in any order, the
  statuses written for a job so far are a prefix of IN_QUEUE, IN_PROGRESS and then one of
  COMPLETED, FAILED, CANCELED, or they are IN_QUEUE, FAILED (the spawn failed). Later
  events only append to them. The job's \<open>meta.json\<close> holds the last record written. Once
  the last status is COMPLETED, FAILED or CANCELED, no later events, requests to cancel
  among them, write a record for the job or change its \<open>meta.json\<close>.
\<close>

theorem status_transitions:
  "let s = run marshal unmarshal e fixedArgs evs (init fs);
       s' = run marshal unmarshal e fixedArgs evs' s;
       h = map Status (savedRecords i (trace s));
       h' = map Status (savedRecords i (trace s'))
   in (h = [] \<or> h = [''IN_QUEUE''] \<or> h = [''IN_QUEUE'', ''FAILED''] \<or>
       h = [''IN_QUEUE'', ''IN_PROGRESS''] \<or>
       h = [''IN_QUEUE'', ''IN_PROGRESS'', ''COMPLETED''] \<or>
       h = [''IN_QUEUE'', ''IN_PROGRESS'', ''FAILED''] \<or>
       h = [''IN_QUEUE'', ''IN_PROGRESS'', ''CANCELED'']) \<and>
      (\<exists>t. h' = h @ t) \<and>
      (h \<noteq> [] \<longrightarrow> files s (metaPath e i) = Some (marshal (last (savedRecords i (trace s))))) \<and>
      (h \<noteq> [] \<and> (last h = ''COMPLETED'' \<or> last h = ''FAILED'' \<or> last h = ''CANCELED'') \<longrightarrow>
         h' = h \<and> files s' (metaPath e i) = files s (metaPath e i))"
proof -
  define s where "s = run marshal unmarshal e fixedArgs evs (init fs)"
  define s' where "s' = run marshal unmarshal e fixedArgs evs' s"
  define h where "h = map Status (savedRecords i (trace s))"
  define h' where "h' = map Status (savedRecords i (trace s'))"
  have I: "Inv marshal e s" unfolding s_def by (rule Inv_reachable)
  have hr: "h = map fst (rows i s)" by (simp add: h_def map_Status_rows)
  have a: "h = [] \<or> h = [''IN_QUEUE''] \<or> h = [''IN_QUEUE'', ''FAILED''] \<or>
       h = [''IN_QUEUE'', ''IN_PROGRESS''] \<or>
       h = [''IN_QUEUE'', ''IN_PROGRESS'', ''COMPLETED''] \<or>
       h = [''IN_QUEUE'', ''IN_PROGRESS'', ''FAILED''] \<or>
       h = [''IN_QUEUE'', ''IN_PROGRESS'', ''CANCELED'']"
    using rows_shape [OF I, of i] unfolding hr by auto
  obtain t where t: "trace s' = trace s @ t"
    unfolding s'_def using run_trace by blast
  have b: "\<exists>t. h' = h @ t"
    by (simp add: h'_def h_def t savedRecords_append)
  have c: "files s (metaPath e i) = Some (marshal (last (savedRecords i (trace s))))" if "h \<noteq> []"
    using that jobInv_file [OF InvD(2) [OF I, of i]] by (simp add: h_def)
  have d: "h' = h \<and> files s' (metaPath e i) = files s (metaPath e i)"
    if h0: "h \<noteq> []" and tm: "last h = ''COMPLETED'' \<or> last h = ''FAILED'' \<or> last h = ''CANCELED''"
  proof -
    have ne: "rows i s \<noteq> []" using h0 by (simp add: hr)
    have "last h = fst (last (rows i s))" using ne by (simp add: hr last_map)
    then obtain j where j: "jobs s i = Some j" "pc j = Returned"
      using terminal_Returned [OF I ne] tm by auto
    have "unchanged e i s s'"
      unfolding s'_def by (rule run_Returned [OF I j])
    then show ?thesis by (simp add: unchanged_def h_def h'_def)
  qed
  show ?thesis
    using a b c d unfolding Let_def s_def [symmetric] s'_def [symmetric] h_def [symmetric] h'_def [symmetric]
    by blast
qed

text \<open>
  A job that runs to COMPLETED; then a request to cancel it, and the events of \<open>runJob\<close>
  once more: the statuses and the file stay.
\<close>

theorem status_transitions_witness:
  "let E = \<lparr>JOBS_DIR = [], BASE_URL = [], TMPDIR = ''/tmp''\<rparr>;
       U = (\<lambda>d v. (v, True));
       s = run Status U E []
             [Submit (Some \<lparr>rArgs = [''echo'', ''hi''], rMimeType = [], rWebhook = [], rBody = []\<rparr>)
                ''a'' (Time 1 0),
              Dispatch, Start ''a'' (SpawnOk 7) (Time 2 0), Register ''a'',
              WaitReturns ''a'' False (Time 3 0) ''hi'' [], Unregister ''a'', Finish ''a'']
             (init Map.empty);
       s' = run Status U E []
              [Http ''PUT'' ''/jobs/a/cancel'', Dispatch, Start ''a'' SpawnErr (Time 4 0),
               WaitReturns ''a'' True (Time 5 0) [] [], Finish ''a''] s
   in map Status (savedRecords ''a'' (trace s)) = [''IN_QUEUE'', ''IN_PROGRESS'', ''COMPLETED''] \<and>
      map Status (savedRecords ''a'' (trace s')) = [''IN_QUEUE'', ''IN_PROGRESS'', ''COMPLETED''] \<and>
      files s' (metaPath E ''a'') = files s (metaPath E ''a'')"
proof -
  define E where "E = \<lparr>JOBS_DIR = [], BASE_URL = [], TMPDIR = ''/tmp''\<rparr>"
  define U :: unmarshaller where "U = (\<lambda>d v. (v, True))"
  define evs where "evs =
             [Submit (Some \<lparr>rArgs = [''echo'', ''hi''], rMimeType = [], rWebhook = [], rBody = []\<rparr>)
                ''a'' (Time 1 0),
              Dispatch, Start ''a'' (SpawnOk 7) (Time 2 0), Register ''a'',
              WaitReturns ''a'' False (Time 3 0) ''hi'' [], Unregister ''a'', Finish ''a'']"
  define evs' where "evs' =
              [Http ''PUT'' ''/jobs/a/cancel'', Dispatch, Start ''a'' SpawnErr (Time 4 0),
               WaitReturns ''a'' True (Time 5 0) [] [], Finish ''a'']"
  define s where "s = run Status U E [] evs (init Map.empty)"
  define s' where "s' = run Status U E [] evs' s"
  have h: "map Status (savedRecords ''a'' (trace s)) = [''IN_QUEUE'', ''IN_PROGRESS'', ''COMPLETED'']"
    unfolding s_def E_def U_def evs_def by (simp add: eval_defs)
  have "map Status (savedRecords ''a'' (trace s')) = map Status (savedRecords ''a'' (trace s)) \<and>
        files s' (metaPath E ''a'') = files s (metaPath E ''a'')"
    using status_transitions [of Status U E "[]" evs Map.empty evs' "''a''"] h
    unfolding Let_def s_def [symmetric] s'_def [symmetric]
    by simp
  then show ?thesis
    using h
    unfolding Let_def s_def [symmetric] E_def [symmetric] U_def [symmetric] evs_def [symmetric]
      evs'_def [symmetric] s'_def [symmetric]
    by simp
qed

text \<open>
  C3: a request for \<open>/jobs/i/result\<close> (for an identifier without a separator) changes
  nothing, and it is answered with the file of the job's captured standard output exactly
  when the job's \<open>meta.json\<close> can be read and the record loaded from it has the status
  COMPLETED; in every other case (no such file, so an unknown identifier; or any other
  status, IN_QUEUE, IN_PROGRESS, FAILED and CANCELED among them) the answer is 404,
  ``Result not available''.
\<close>

theorem result_only_when_completed:
  assumes "CHR ''/'' \<notin> set i"
  shows "let r = jobHandler unmarshal e meth (''/jobs/'' @ i @ ''/result'') s in
     snd r = s \<and>
     (fst r = ServeFile (stdoutPath e i) \<longleftrightarrow>
        (\<exists>m. loadMeta unmarshal e (files s) i = Inr m \<and> Status m = ''COMPLETED'')) \<and>
     (fst r \<noteq> ServeFile (stdoutPath e i) \<longrightarrow> fst r = HttpError ''Result not available'' 404) \<and>
     (files s (metaPath e i) = None \<longrightarrow> fst r = HttpError ''Result not available'' 404)"
  unfolding jobHandler_result [OF assms] Let_def
  by (auto simp: loadMeta_def Let_def split: sum.splits option.splits)

text \<open>A record that decodes to COMPLETED is served; one that decodes to FAILED is not.\<close>

theorem result_only_when_completed_witness:
  "CHR ''/'' \<notin> set ''a'' \<and>
   fst (jobHandler (\<lambda>d v. if d = ''ok'' then (v\<lparr>Status := ''COMPLETED''\<rparr>, False) else (v, True))
          \<lparr>JOBS_DIR = [], BASE_URL = [], TMPDIR = ''/tmp''\<rparr> ''GET'' ''/jobs/a/result''
          (init [''jobs/a/meta.json'' \<mapsto> ''ok''])) = ServeFile ''jobs/a/stdout.txt'' \<and>
   fst (jobHandler (\<lambda>d v. if d = ''ok'' then (v\<lparr>Status := ''FAILED''\<rparr>, False) else (v, True))
          \<lparr>JOBS_DIR = [], BASE_URL = [], TMPDIR = ''/tmp''\<rparr> ''GET'' ''/jobs/a/result''
          (init [''jobs/a/meta.json'' \<mapsto> ''ok''])) = HttpError ''Result not available'' 404"
  using result_only_when_completed [of "''a''"
      "\<lambda>d v. if d = ''ok'' then (v\<lparr>Status := ''COMPLETED''\<rparr>, False) else (v, True)"
      "\<lparr>JOBS_DIR = [], BASE_URL = [], TMPDIR = ''/tmp''\<rparr>" "''GET''"
      "init [''jobs/a/meta.json'' \<mapsto> ''ok'']"]
    result_only_when_completed [of "''a''"
      "\<lambda>d v. if d = ''ok'' then (v\<lparr>Status := ''FAILED''\<rparr>, False) else (v, True)"
      "\<lparr>JOBS_DIR = [], BASE_URL = [], TMPDIR = ''/tmp''\<rparr>" "''GET''"
      "init [''jobs/a/meta.json'' \<mapsto> ''ok'']"]
  by (simp add: Let_def loadMeta_def metaPath_def stdoutPath_def getJobsDir_def init_def zeroMeta_def)

text \<open>
  C4: take a job whose goroutine is about to run (its argument vector is not empty,
  so \<open>runJob\<close> reaches \<open>cmd.Start\<close>) in any state the server reaches, and let the spawn
  fail at the instant \<open>now\<close>. Then, whatever events follow: the records written for the job
  are the one of the submission (IN_QUEUE, no process identifier, no start or completion
  time) and then one with the status FAILED, no process identifier, and \<open>now\<close> as both
  the start and the completion time, with no IN_PROGRESS in between; this last record is
  what the job's \<open>meta.json\<close> holds; and the registry has no entry for the job before
  the spawn, after it, or ever after.
\<close>

theorem spawn_failure:
  assumes s: "s = run marshal unmarshal e fixedArgs evs (init fs)"
    and nc: "\<not> crashed s" and j: "jobs s i = Some j" and pc: "pc j = Ready"
    and a: "Args (meta j) \<noteq> []"
  shows "let s1 = step marshal unmarshal e fixedArgs (Start i SpawnErr now) s;
             s2 = run marshal unmarshal e fixedArgs evs' s1
         in rows i s = [(''IN_QUEUE'', 0, zeroTime, zeroTime)] \<and>
            rows i s2 = [(''IN_QUEUE'', 0, zeroTime, zeroTime), (''FAILED'', 0, now, now)] \<and>
            files s2 (metaPath e i) = Some (marshal (last (savedRecords i (trace s2)))) \<and>
            runningJobs s i = None \<and> runningJobs s1 i = None \<and> runningJobs s2 i = None \<and>
            map_option (\<lambda>j. PID (meta j)) (jobs s2 i) = Some 0 \<and>
            pcOf s2 i = Some Returned"
proof -
  define s1 where "s1 = step marshal unmarshal e fixedArgs (Start i SpawnErr now) s"
  define s2 where "s2 = run marshal unmarshal e fixedArgs evs' s1"
  have I: "Inv marshal e s" unfolding s by (rule Inv_reachable)
  note Ii = InvD(2) [OF I, of i]
  have r0: "rows i s = [(''IN_QUEUE'', 0, zeroTime, zeroTime)]"
    using jobInv_SomeD(3) [OF Ii j] pc by (simp add: recOK_def Let_def)
  have nr: "runningJobs s i = None"
    using jobInv_running(2) [OF Ii _ j] pc by (cases "runningJobs s i") auto
  have s1: "s1 = runJob_start marshal e i SpawnErr now s"
    using nc j pc by (simp add: s1_def step_def pcOf_def)
  obtain j1 where j1: "jobs s1 i = Some j1" "pc j1 = Returned" "PID (meta j1) = 0"
    and r1: "rows i s1 = [(''IN_QUEUE'', 0, zeroTime, zeroTime), (''FAILED'', 0, now, now)]"
    and n1: "runningJobs s1 = runningJobs s"
    using start_SpawnErr_state [OF I j pc a, of now] unfolding s1 by blast
  have I1: "Inv marshal e s1" unfolding s1_def by (rule Inv_step [OF I])
  have u: "unchanged e i s1 s2" unfolding s2_def by (rule run_Returned [OF I1 j1(1,2)])
  have I2: "Inv marshal e s2" unfolding s2_def by (rule Inv_run [OF I1])
  have r2: "rows i s2 = [(''IN_QUEUE'', 0, zeroTime, zeroTime), (''FAILED'', 0, now, now)]"
    using u r1 by (simp add: unchanged_def rows_def)
  then have "savedRecords i (trace s2) \<noteq> []" by (auto simp: rows_def)
  then have f2: "files s2 (metaPath e i) = Some (marshal (last (savedRecords i (trace s2))))"
    by (rule jobInv_file [OF InvD(2) [OF I2]])
  have j2: "jobs s2 i = Some j1" using u j1(1) by (simp add: unchanged_def)
  have n2: "runningJobs s2 i = None" using u n1 nr by (simp add: unchanged_def)
  show ?thesis
    unfolding Let_def s1_def [symmetric] s2_def [symmetric]
    using r0 r2 f2 nr n1 n2 j2 j1 by (simp add: pcOf_def)
qed

text \<open>
  A submission of a binary that does not exist, then a failed spawn, then a request to
  cancel and stray events of \<open>runJob\<close>.
\<close>

theorem spawn_failure_witness:
  "let E = \<lparr>JOBS_DIR = [], BASE_URL = [], TMPDIR = ''/tmp''\<rparr>;
       U = (\<lambda>d v. (v, True));
       J = \<lparr>meta = \<lparr>ID = ''a'', Args = [''/nonexistent-binary''], MimeType = [], Webhook = [],
                      Status = ''IN_QUEUE'', PID = 0, EnqueuedAt = Time 1 0,
                      StartedAt = zeroTime, CompletedAt = zeroTime\<rparr>,
            inputFilePath = [], pc = Ready, stdin = None, canceled = False, waitErr = False\<rparr>;
       s = run Status U E []
             [Submit (Some \<lparr>rArgs = [''/nonexistent-binary''], rMimeType = [], rWebhook = [], rBody = []\<rparr>)
                ''a'' (Time 1 0),
              Dispatch]
             (init Map.empty);
       s2 = run Status U E [] [Http ''PUT'' ''/jobs/a/cancel'', Register ''a'', Finish ''a'']
              (step Status U E [] (Start ''a'' SpawnErr (Time 2 0)) s)
   in \<not> crashed s \<and> jobs s ''a'' = Some J \<and> pc J = Ready \<and> Args (meta J) \<noteq> [] \<and>
      rows ''a'' s2 = [(''IN_QUEUE'', 0, zeroTime, zeroTime), (''FAILED'', 0, Time 2 0, Time 2 0)] \<and>
      runningJobs s2 ''a'' = None \<and>
      map_option (\<lambda>j. PID (meta j)) (jobs s2 ''a'') = Some 0"
proof -
  define E where "E = \<lparr>JOBS_DIR = [], BASE_URL = [], TMPDIR = ''/tmp''\<rparr>"
  define U :: unmarshaller where "U = (\<lambda>d v. (v, True))"
  define J where "J = \<lparr>meta = \<lparr>ID = ''a'', Args = [''/nonexistent-binary''], MimeType = [], Webhook = [],
                      Status = ''IN_QUEUE'', PID = 0, EnqueuedAt = Time 1 0,
                      StartedAt = zeroTime, CompletedAt = zeroTime\<rparr>,
            inputFilePath = [], pc = Ready, stdin = None, canceled = False, waitErr = False\<rparr>"
  define evs where "evs =
             [Submit (Some \<lparr>rArgs = [''/nonexistent-binary''], rMimeType = [], rWebhook = [], rBody = []\<rparr>)
                ''a'' (Time 1 0),
              Dispatch]"
  define evs' where "evs' = [Http ''PUT'' ''/jobs/a/cancel'', Register ''a'', Finish ''a'']"
  define s where "s = run Status U E [] evs (init Map.empty)"
  have s: "s = run Status U E [] evs (init Map.empty)" by (simp add: s_def)
  have nc: "\<not> crashed s"
    unfolding s_def E_def U_def evs_def by (simp add: eval_defs)
  have j: "jobs s ''a'' = Some J"
    unfolding s_def E_def U_def evs_def J_def by (simp add: eval_defs)
  have pc: "pc J = Ready" and a: "Args (meta J) \<noteq> []"
    by (simp_all add: J_def)
  show ?thesis
    using spawn_failure [OF s nc j pc a, where now = "Time 2 0" and evs' = evs'] nc j pc a
    unfolding Let_def s_def [symmetric] E_def [symmetric] U_def [symmetric] evs_def [symmetric]
      evs'_def [symmetric] J_def [symmetric]
    by simp
qed

text \<open>
  C5, at the input where the program departs from it: a job is submitted with the
  webhook target \<open>http://hook\<close> and the spawn fails. \<open>runJob\<close> writes FAILED and returns;
  no \<open>sendWebhook\<close> goroutine is started and nothing is posted, also when the events that
  would post are tried afterwards: the trace has the two writes of the record and no more.
  The same submission with a spawn that succeeds and a process that exits with an error
  gets its one notification, after FAILED is written.
\<close>

theorem webhook_skipped_on_spawn_failure:
  "let E = \<lparr>JOBS_DIR = [], BASE_URL = [], TMPDIR = ''/tmp''\<rparr>;
       U = (\<lambda>d v. (v, True));
       sub = Submit (Some \<lparr>rArgs = [''/nonexistent-binary''], rMimeType = [],
                           rWebhook = ''http://hook'', rBody = []\<rparr>) ''a'' (Time 1 0);
       failed = run Status U E []
                  [sub, Dispatch, Start ''a'' SpawnErr (Time 2 0), Notify ''a'', Finish ''a'', Notify ''a'']
                  (init Map.empty);
       exited = run Status U E []
                  [sub, Dispatch, Start ''a'' (SpawnOk 7) (Time 2 0), Register ''a'',
                   WaitReturns ''a'' True (Time 3 0) [] [], Unregister ''a'', Finish ''a'', Notify ''a'']
                  (init Map.empty)
   in map Status (savedRecords ''a'' (trace failed)) = [''IN_QUEUE'', ''FAILED''] \<and>
      map Webhook (savedRecords ''a'' (trace failed)) = [''http://hook'', ''http://hook''] \<and>
      postedFor ''a'' (trace failed) = [] \<and> hooks failed = [] \<and> length (trace failed) = 2 \<and>
      map Status (savedRecords ''a'' (trace exited)) = [''IN_QUEUE'', ''IN_PROGRESS'', ''FAILED''] \<and>
      postedFor ''a'' (trace exited) =
        [(''http://hook'', [(''id'', ''a''), (''status'', ''FAILED''), (''result_url'', ''/jobs/a/result'')])]"
  unfolding Let_def
  by (intro conjI) (simp_all add: eval_defs)

text \<open>
  C6 as stated fails: a job that starts as process 7 and exits normally. The record
  written with COMPLETED still has the process identifier 7; nothing in \<open>runJob\<close> clears
  the field.
\<close>

theorem pid_kept_after_exit:
  "let rs = savedRecords ''a''
        (trace (run Status (\<lambda>d v. (v, True)) \<lparr>JOBS_DIR = [], BASE_URL = [], TMPDIR = ''/tmp''\<rparr> []
           [Submit (Some \<lparr>rArgs = [''echo'', ''hi''], rMimeType = [], rWebhook = [], rBody = []\<rparr>)
              ''a'' (Time 1 0),
            Dispatch, Start ''a'' (SpawnOk 7) (Time 2 0), Register ''a'',
            WaitReturns ''a'' False (Time 3 0) ''hi'' [], Unregister ''a'', Finish ''a'']
           (init Map.empty)))
   in map Status rs = [''IN_QUEUE'', ''IN_PROGRESS'', ''COMPLETED''] \<and>
      map PID rs = [0, 7, 7] \<and> PID (last rs) \<noteq> 0"
  by (simp add: eval_defs)

text \<open>
  C6, amended: in every state the server reaches, the records written for a job have
  no process identifier in the IN_QUEUE record and in the FAILED record of a failed
  spawn; the IN_PROGRESS record has a process identifier, and the terminal record written
  after it (COMPLETED, FAILED or CANCELED) has the same one. The identifier in the
  IN_PROGRESS record is the one of the process \<open>cmd.Start\<close> gave.
\<close>

theorem pid_of_records:
  "let s = run marshal unmarshal e fixedArgs evs (init fs);
       rs = map (\<lambda>m. (Status m, PID m)) (savedRecords i (trace s))
   in (rs = [] \<or> rs = [(''IN_QUEUE'', 0)] \<or> rs = [(''IN_QUEUE'', 0), (''FAILED'', 0)] \<or>
       (\<exists>p. rs = [(''IN_QUEUE'', 0), (''IN_PROGRESS'', p)] \<or>
            rs = [(''IN_QUEUE'', 0), (''IN_PROGRESS'', p), (''COMPLETED'', p)] \<or>
            rs = [(''IN_QUEUE'', 0), (''IN_PROGRESS'', p), (''FAILED'', p)] \<or>
            rs = [(''IN_QUEUE'', 0), (''IN_PROGRESS'', p), (''CANCELED'', p)])) \<and>
      (\<not> crashed s \<and> pcOf s i = Some Ready \<and> (\<exists>j. jobs s i = Some j \<and> Args (meta j) \<noteq> []) \<longrightarrow>
         map (\<lambda>m. (Status m, PID m))
           (savedRecords i (trace (step marshal unmarshal e fixedArgs (Start i (SpawnOk pid) now) s))) =
         [(''IN_QUEUE'', 0), (''IN_PROGRESS'', pid)])"
proof -
  define s where "s = run marshal unmarshal e fixedArgs evs (init fs)"
  define rs where "rs = map (\<lambda>m. (Status m, PID m)) (savedRecords i (trace s))"
  have I: "Inv marshal e s" unfolding s_def by (rule Inv_reachable)
  note Ii = InvD(2) [OF I, of i]
  have rr: "rs = map (\<lambda>r. (fst r, fst (snd r))) (rows i s)"
    by (simp add: rs_def map_Status_PID_rows)
  have a: "rs = [] \<or> rs = [(''IN_QUEUE'', 0)] \<or> rs = [(''IN_QUEUE'', 0), (''FAILED'', 0)] \<or>
       (\<exists>p. rs = [(''IN_QUEUE'', 0), (''IN_PROGRESS'', p)] \<or>
            rs = [(''IN_QUEUE'', 0), (''IN_PROGRESS'', p), (''COMPLETED'', p)] \<or>
            rs = [(''IN_QUEUE'', 0), (''IN_PROGRESS'', p), (''FAILED'', p)] \<or>
            rs = [(''IN_QUEUE'', 0), (''IN_PROGRESS'', p), (''CANCELED'', p)])"
    using rows_shape [OF I, of i] unfolding rr by auto
  have b: "map (\<lambda>m. (Status m, PID m))
           (savedRecords i (trace (step marshal unmarshal e fixedArgs (Start i (SpawnOk pid) now) s))) =
         [(''IN_QUEUE'', 0), (''IN_PROGRESS'', pid)]"
    if nc: "\<not> crashed s" and pc: "pcOf s i = Some Ready" and j: "jobs s i = Some j"
      and ar: "Args (meta j) \<noteq> []" for j
  proof -
    have pcj: "pc j = Ready" using pc j by (simp add: pcOf_def)
    have r0: "rows i s = [(''IN_QUEUE'', 0, zeroTime, zeroTime)]"
      using jobInv_SomeD(3) [OF Ii j] pcj by (simp add: recOK_def Let_def)
    have sp0: "map (\<lambda>m. (Status m, PID m)) (savedRecords i (trace s)) = [(''IN_QUEUE'', 0)]"
      using r0 by (simp add: map_Status_PID_rows)
    show ?thesis
      using nc pc j ar sp0 jobInv_SomeD(1) [OF Ii j]
      by (simp add: step_def runJob_start_def saveMeta_def setJob_def Let_def
            savedRecords_snoc_Saved)
  qed
  show ?thesis
    unfolding Let_def s_def [symmetric] rs_def [symmetric]
    using a b by blast
qed

theorem pid_of_records_witness:
  "let E = \<lparr>JOBS_DIR = [], BASE_URL = [], TMPDIR = ''/tmp''\<rparr>;
       U = (\<lambda>d v. (v, True));
       s = run Status U E []
             [Submit (Some \<lparr>rArgs = [''echo'', ''hi''], rMimeType = [], rWebhook = [], rBody = []\<rparr>)
                ''a'' (Time 1 0),
              Dispatch]
             (init Map.empty)
   in \<not> crashed s \<and> pcOf s ''a'' = Some Ready \<and>
      (\<exists>j. jobs s ''a'' = Some j \<and> Args (meta j) \<noteq> []) \<and>
      map (\<lambda>m. (Status m, PID m))
        (savedRecords ''a'' (trace (step Status U E [] (Start ''a'' (SpawnOk 7) (Time 2 0)) s))) =
      [(''IN_QUEUE'', 0), (''IN_PROGRESS'', 7)]"
proof -
  define E where "E = \<lparr>JOBS_DIR = [], BASE_URL = [], TMPDIR = ''/tmp''\<rparr>"
  define U :: unmarshaller where "U = (\<lambda>d v. (v, True))"
  define evs where "evs =
             [Submit (Some \<lparr>rArgs = [''echo'', ''hi''], rMimeType = [], rWebhook = [], rBody = []\<rparr>)
                ''a'' (Time 1 0),
              Dispatch]"
  define s where "s = run Status U E [] evs (init Map.empty)"
  have nc: "\<not> crashed s"
    unfolding s_def E_def U_def evs_def by (simp add: eval_defs)
  have pc: "pcOf s ''a'' = Some Ready"
    unfolding s_def E_def U_def evs_def by (simp add: eval_defs)
  have j: "\<exists>j. jobs s ''a'' = Some j \<and> Args (meta j) \<noteq> []"
    unfolding s_def E_def U_def evs_def by (simp add: eval_defs)
  show ?thesis
    using pid_of_records [of Status U E "[]" evs Map.empty "''a''" 7 "Time 2 0"] nc pc j
    unfolding Let_def s_def [symmetric] E_def [symmetric] U_def [symmetric] evs_def [symmetric]
    by simp
qed

text \<open>
  C7, at the input where the program departs from it: a job is submitted with the
  staged input \<open>payload\<close> and the spawn fails. \<open>runJob\<close> has returned, the record is
  FAILED, and the staged file is still there, whatever is tried afterwards. The same
  submission with a spawn that succeeds has the payload as standard input, and the file is
  removed once the process has exited.
\<close>

theorem staged_input_kept_on_spawn_failure:
  "let E = \<lparr>JOBS_DIR = [], BASE_URL = [], TMPDIR = ''/tmp''\<rparr>;
       U = (\<lambda>d v. (v, True));
       sub = Submit (Some \<lparr>rArgs = [''/nonexistent-binary''], rMimeType = [],
                           rWebhook = [], rBody = ''payload''\<rparr>) ''a'' (Time 1 0);
       failed = run Status U E []
                  [sub, Dispatch, Start ''a'' SpawnErr (Time 2 0), Finish ''a'', Notify ''a'']
                  (init Map.empty);
       exited = run Status U E []
                  [sub, Dispatch, Start ''a'' (SpawnOk 7) (Time 2 0), Register ''a'',
                   WaitReturns ''a'' True (Time 3 0) [] [], Unregister ''a'', Finish ''a'']
                  (init Map.empty)
   in pcOf failed ''a'' = Some Returned \<and>
      map Status (savedRecords ''a'' (trace failed)) = [''IN_QUEUE'', ''FAILED''] \<and>
      map_option inputFilePath (jobs failed ''a'') = Some ''/tmp/input-a.tmp'' \<and>
      files failed ''/tmp/input-a.tmp'' = Some ''payload'' \<and>
      pcOf exited ''a'' = Some Returned \<and>
      map_option stdin (jobs exited ''a'') = Some (Some ''payload'') \<and>
      files exited ''/tmp/input-a.tmp'' = None"
  unfolding Let_def
  by (intro conjI) (simp_all add: eval_defs)

text \<open>
  C8, at an input where the program departs from it: two records whose enqueued times
  carry different offsets, as the server writes them before and after the clocks go back
  (job \<open>a\<close> at 02:30 on the clock of +02:00, which is 00:30 UTC; job \<open>b\<close> forty minutes
  later, at 02:10 on the clock of +01:00, which is 01:10 UTC). \<open>listJobs\<close> sorts the
  entries by the text of the enqueued time, not by the time, so the older job \<open>a\<close> comes
  first, in whatever order the directory lists the two.
\<close>

theorem listJobs_older_first_across_offsets:
  "let ta = Time 63865585800 7200;
       tb = Time 63865588200 3600;
       U = (\<lambda>d v. if d = ''record a'' then (v\<lparr>ID := ''a'', Status := ''COMPLETED'', EnqueuedAt := ta\<rparr>, False)
                  else if d = ''record b'' then (v\<lparr>ID := ''b'', Status := ''COMPLETED'', EnqueuedAt := tb\<rparr>, False)
                  else (v, True));
       E = \<lparr>JOBS_DIR = [], BASE_URL = [], TMPDIR = ''/tmp''\<rparr>;
       fs = [''jobs/a/meta.json'' \<mapsto> ''record a'', ''jobs/b/meta.json'' \<mapsto> ''record b''];
       ea = \<lparr>entryID = ''a'', entryArgs = [], entryStatus = ''COMPLETED'',
              entryResultURL = ''/jobs/a/result'', entryLogURL = ''/jobs/a/log'',
              entryEnqueuedAt = ''2024-10-27T02:30:00+02:00''\<rparr>;
       eb = \<lparr>entryID = ''b'', entryArgs = [], entryStatus = ''COMPLETED'',
              entryResultURL = ''/jobs/b/result'', entryLogURL = ''/jobs/b/log'',
              entryEnqueuedAt = ''2024-10-27T02:10:00+01:00''\<rparr>
   in wall ta < wall tb \<and>
      Format_RFC3339 ta = ''2024-10-27T02:30:00+02:00'' \<and>
      Format_RFC3339 tb = ''2024-10-27T02:10:00+01:00'' \<and>
      listJobs U E fs (Inr [(''a'', True), (''b'', True)]) = EncodeJobs [ea, eb] \<and>
      listJobs U E fs (Inr [(''b'', True), (''a'', True)]) = EncodeJobs [ea, eb]"
  unfolding Let_def
  by (intro conjI)
     (simp_all add: listJobs_def sort_Slice_def getJobsDir_def zeroMeta_def zeroTime_def
        Format_before_clocks_go_back Format_after_clocks_go_back)

text \<open>
  C9 as stated fails: a \<open>meta.json\<close> that is JSON but has a number where the status
  belongs. \<open>json.Unmarshal\<close> stores the fields it can and reports the mismatch (the decoder
  here does that for this one document and rejects every other). The document is not a
  valid record, \<open>loadMeta\<close> succeeds all the same, and the record it returns is not the
  zero value: it has the identifier, the arguments and the process identifier of the
  document.
\<close>

theorem loadMeta_partial_record:
  "let doc = ''{\"id\":\"t\",\"args\":[\"x\"],\"pid\":9,\"status\":5}'';
       U = (\<lambda>d v. if d = doc then (v\<lparr>ID := ''t'', Args := [''x''], PID := 9\<rparr>, True) else (v, True));
       E = \<lparr>JOBS_DIR = [], BASE_URL = [], TMPDIR = ''/tmp''\<rparr>;
       fs = [''jobs/t/meta.json'' \<mapsto> doc]
   in snd (U doc zeroMeta) \<and>
      loadMeta U E fs ''t'' = Inr (zeroMeta\<lparr>ID := ''t'', Args := [''x''], PID := 9\<rparr>) \<and>
      loadMeta U E fs ''t'' \<noteq> Inr zeroMeta"
  unfolding Let_def
  by (intro conjI)
     (simp_all add: loadMeta_def metaPath_def getJobsDir_def zeroMeta_def Let_def)

text \<open>
  C9, amended: \<open>loadMeta\<close> returns an error exactly when \<open>meta.json\<close> cannot be read. When
  it can, \<open>loadMeta\<close> succeeds with the record as the decoder left it, starting from the
  zero value, whether or not the decoder reported an error: the zero-valued record when
  the decoder stored nothing, a partly filled record when it stored fields before it
  failed. The status endpoint answers with that record as it does with any record.
\<close>

theorem loadMeta_ignores_decode_error:
  "((\<exists>err. loadMeta unmarshal e (files s) i = Inl err) \<longleftrightarrow> files s (metaPath e i) = None) \<and>
   (\<forall>data m failed. files s (metaPath e i) = Some data \<and> unmarshal data zeroMeta = (m, failed) \<longrightarrow>
      loadMeta unmarshal e (files s) i = Inr m \<and>
      (CHR ''/'' \<notin> set i \<longrightarrow>
         fst (jobHandler unmarshal e meth (''/jobs/'' @ i @ ''/status'') s) = EncodeMeta m))"
proof -
  have a: "(\<exists>err. loadMeta unmarshal e (files s) i = Inl err) \<longleftrightarrow> files s (metaPath e i) = None"
    by (auto simp: loadMeta_def Let_def split: option.splits)
  have b: "loadMeta unmarshal e (files s) i = Inr m"
    if "files s (metaPath e i) = Some data" and "unmarshal data zeroMeta = (m, failed)"
    for data m failed
    using that by (simp add: loadMeta_def Let_def)
  have c: "fst (jobHandler unmarshal e meth (''/jobs/'' @ i @ ''/status'') s) = EncodeMeta m"
    if "files s (metaPath e i) = Some data" and "unmarshal data zeroMeta = (m, failed)"
      and "CHR ''/'' \<notin> set i" for data m failed
    using b [OF that(1,2)] unfolding jobHandler_status [OF that(3)] by simp
  show ?thesis
    using a b c by blast
qed

text \<open>
  A \<open>meta.json\<close> that breaks off in the middle of a document (the decoder stores nothing:
  the zero-valued record), one with a number for the status (the partly filled record),
  and an identifier without a \<open>meta.json\<close>.
\<close>

theorem loadMeta_ignores_decode_error_witness:
  "let doc = ''{\"id\":\"t\",\"args\":[\"x\"],\"pid\":9,\"status\":5}'';
       U = (\<lambda>d v. if d = doc then (v\<lparr>ID := ''t'', Args := [''x''], PID := 9\<rparr>, True) else (v, True));
       E = \<lparr>JOBS_DIR = [], BASE_URL = [], TMPDIR = ''/tmp''\<rparr>;
       S = init [''jobs/a/meta.json'' \<mapsto> ''{\"id\": \"a\", \"status'', ''jobs/t/meta.json'' \<mapsto> doc]
   in files S (metaPath E ''a'') = Some ''{\"id\": \"a\", \"status'' \<and>
      U ''{\"id\": \"a\", \"status'' zeroMeta = (zeroMeta, True) \<and>
      CHR ''/'' \<notin> set ''a'' \<and>
      loadMeta U E (files S) ''a'' = Inr zeroMeta \<and>
      fst (jobHandler U E ''GET'' ''/jobs/a/status'' S) = EncodeMeta zeroMeta \<and>
      files S (metaPath E ''t'') = Some doc \<and>
      U doc zeroMeta = (zeroMeta\<lparr>ID := ''t'', Args := [''x''], PID := 9\<rparr>, True) \<and>
      CHR ''/'' \<notin> set ''t'' \<and>
      loadMeta U E (files S) ''t'' = Inr (zeroMeta\<lparr>ID := ''t'', Args := [''x''], PID := 9\<rparr>) \<and>
      fst (jobHandler U E ''GET'' ''/jobs/t/status'' S) =
        EncodeMeta (zeroMeta\<lparr>ID := ''t'', Args := [''x''], PID := 9\<rparr>) \<and>
      (\<exists>err. loadMeta U E (files S) ''b'' = Inl err)"
proof -
  define doc where "doc = ''{\"id\":\"t\",\"args\":[\"x\"],\"pid\":9,\"status\":5}''"
  define U :: unmarshaller
    where "U = (\<lambda>d v. if d = doc then (v\<lparr>ID := ''t'', Args := [''x''], PID := 9\<rparr>, True) else (v, True))"
  define E where "E = \<lparr>JOBS_DIR = [], BASE_URL = [], TMPDIR = ''/tmp''\<rparr>"
  define S where "S = init [''jobs/a/meta.json'' \<mapsto> ''{\"id\": \"a\", \"status'', ''jobs/t/meta.json'' \<mapsto> doc]"
  have fa: "files S (metaPath E ''a'') = Some ''{\"id\": \"a\", \"status''"
    by (simp add: S_def E_def init_def metaPath_def getJobsDir_def)
  have ua: "U ''{\"id\": \"a\", \"status'' zeroMeta = (zeroMeta, True)"
    by (simp add: U_def doc_def)
  have ft: "files S (metaPath E ''t'') = Some doc"
    by (simp add: S_def E_def init_def metaPath_def getJobsDir_def)
  have ut: "U doc zeroMeta = (zeroMeta\<lparr>ID := ''t'', Args := [''x''], PID := 9\<rparr>, True)"
    by (simp add: U_def)
  have n: "CHR ''/'' \<notin> set ''a''" "CHR ''/'' \<notin> set ''t''" by simp_all
  have g: "files S (metaPath E ''b'') = None"
    by (simp add: S_def E_def init_def metaPath_def getJobsDir_def)
  have "loadMeta U E (files S) ''a'' = Inr zeroMeta \<and>
      fst (jobHandler U E ''GET'' (''/jobs/'' @ ''a'' @ ''/status'') S) = EncodeMeta zeroMeta"
    using loadMeta_ignores_decode_error [of U E S "''a''" "''GET''"] fa ua n(1) by blast
  then have ra: "loadMeta U E (files S) ''a'' = Inr zeroMeta \<and>
      fst (jobHandler U E ''GET'' ''/jobs/a/status'' S) = EncodeMeta zeroMeta"
    by simp
  have "loadMeta U E (files S) ''t'' = Inr (zeroMeta\<lparr>ID := ''t'', Args := [''x''], PID := 9\<rparr>) \<and>
      fst (jobHandler U E ''GET'' (''/jobs/'' @ ''t'' @ ''/status'') S) =
        EncodeMeta (zeroMeta\<lparr>ID := ''t'', Args := [''x''], PID := 9\<rparr>)"
    using loadMeta_ignores_decode_error [of U E S "''t''" "''GET''"] ft ut n(2) by blast
  then have rt: "loadMeta U E (files S) ''t'' = Inr (zeroMeta\<lparr>ID := ''t'', Args := [''x''], PID := 9\<rparr>) \<and>
      fst (jobHandler U E ''GET'' ''/jobs/t/status'' S) =
        EncodeMeta (zeroMeta\<lparr>ID := ''t'', Args := [''x''], PID := 9\<rparr>)"
    by simp
  have rb: "\<exists>err. loadMeta U E (files S) ''b'' = Inl err"
    using loadMeta_ignores_decode_error [of U E S "''b''" "''GET''"] g by blast
  show ?thesis
    using fa ua ft ut n ra rt rb
    unfolding Let_def U_def E_def S_def doc_def
    by simp
qed

text \<open>
  C10: \<open>sendWebhook\<close> posts, to the record's webhook target, a payload of exactly the
  fields \<open>id\<close>, \<open>status\<close> and \<open>result_url\<close>, with \<open>result_url\<close> the path
  \<open>/jobs/id/result\<close>; this is what the goroutine started for a finished job posts. The
  environment is no input of it: when \<open>BASE_URL\<close> is set, the \<open>result_url\<close> of the
  submission's response has the prefix and the one of the webhook has not.
\<close>

theorem webhook_result_url_relative:
  "trace (sendWebhook m s) =
     trace s @ [Posted (Webhook m)
                  [(''id'', ID m), (''status'', Status m), (''result_url'', ''/jobs/'' @ ID m @ ''/result'')]] \<and>
   (i \<in> set (hooks s') \<and> jobs s' i = Some j \<longrightarrow>
      trace (step marshal unmarshal e fixedArgs (Notify i) s') =
        (if crashed s' then trace s'
         else trace s' @
           [Posted (Webhook (meta j))
              [(''id'', ID (meta j)), (''status'', Status (meta j)),
               (''result_url'', ''/jobs/'' @ ID (meta j) @ ''/result'')]])) \<and>
   (BASE_URL e \<noteq> [] \<longrightarrow>
      (\<exists>ps. fst (submitJob marshal e fixedArgs (Some r) (ID m) now s) = EncodeMap ps \<and>
         map_of ps ''result_url'' = Some (BASE_URL e @ ''/jobs/'' @ ID m @ ''/result'') \<and>
         map_of (webhookPayload m) ''result_url'' = Some (''/jobs/'' @ ID m @ ''/result'') \<and>
         map_of ps ''result_url'' \<noteq> map_of (webhookPayload m) ''result_url''))"
proof -
  have a: "trace (sendWebhook m s) =
     trace s @ [Posted (Webhook m)
                  [(''id'', ID m), (''status'', Status m), (''result_url'', ''/jobs/'' @ ID m @ ''/result'')]]"
    by (simp add: sendWebhook_def webhookPayload_def)
  have b: "trace (step marshal unmarshal e fixedArgs (Notify i) s') =
        (if crashed s' then trace s'
         else trace s' @
           [Posted (Webhook (meta j))
              [(''id'', ID (meta j)), (''status'', Status (meta j)),
               (''result_url'', ''/jobs/'' @ ID (meta j) @ ''/result'')]])"
    if "i \<in> set (hooks s')" and "jobs s' i = Some j"
    using that by (simp add: step_def notify_def sendWebhook_def webhookPayload_def)
  have c: "\<exists>ps. fst (submitJob marshal e fixedArgs (Some r) (ID m) now s) = EncodeMap ps \<and>
         map_of ps ''result_url'' = Some (BASE_URL e @ ''/jobs/'' @ ID m @ ''/result'') \<and>
         map_of (webhookPayload m) ''result_url'' = Some (''/jobs/'' @ ID m @ ''/result'') \<and>
         map_of ps ''result_url'' \<noteq> map_of (webhookPayload m) ''result_url''"
    if "BASE_URL e \<noteq> []"
    using that by (simp add: submitJob_def Let_def webhookPayload_def)
  show ?thesis using a b c by blast
qed

text \<open>
  With the base URL \<open>https://q.example\<close>.
\<close>

theorem webhook_result_url_relative_witness:
  "let E = \<lparr>JOBS_DIR = [], BASE_URL = ''https://q.example'', TMPDIR = ''/tmp''\<rparr>;
       M = zeroMeta\<lparr>ID := ''a'', Status := ''COMPLETED'', Webhook := ''http://hook''\<rparr>;
       J = \<lparr>meta = M, inputFilePath = [], pc = Returned, stdin = None, canceled = False, waitErr = False\<rparr>;
       S = (init Map.empty)\<lparr>jobs := [''a'' \<mapsto> J], hooks := [''a'']\<rparr>;
       R = \<lparr>rArgs = [''echo''], rMimeType = [], rWebhook = ''http://hook'', rBody = []\<rparr>
   in BASE_URL E \<noteq> [] \<and> ''a'' \<in> set (hooks S) \<and> jobs S ''a'' = Some J \<and>
      trace (step Status (\<lambda>d v. (v, True)) E [] (Notify ''a'') S) =
        [Posted ''http://hook''
           [(''id'', ''a''), (''status'', ''COMPLETED''), (''result_url'', ''/jobs/a/result'')]] \<and>
      fst (submitJob Status E [] (Some R) ''a'' (Time 1 0) (init Map.empty)) =
        EncodeMap [(''id'', ''a''), (''status_url'', ''https://q.example/jobs/a/status''),
                   (''result_url'', ''https://q.example/jobs/a/result''),
                   (''log_url'', ''https://q.example/jobs/a/log'')]"
proof -
  define E where "E = \<lparr>JOBS_DIR = [], BASE_URL = ''https://q.example'', TMPDIR = ''/tmp''\<rparr>"
  define M where "M = zeroMeta\<lparr>ID := ''a'', Status := ''COMPLETED'', Webhook := ''http://hook''\<rparr>"
  define J where "J = \<lparr>meta = M, inputFilePath = [], pc = Returned, stdin = None,
                        canceled = False, waitErr = False\<rparr>"
  define S where "S = (init Map.empty)\<lparr>jobs := [''a'' \<mapsto> J], hooks := [''a'']\<rparr>"
  define R where "R = \<lparr>rArgs = [''echo''], rMimeType = [], rWebhook = ''http://hook'', rBody = []\<rparr>"
  have b: "BASE_URL E \<noteq> []" by (simp add: E_def)
  have h: "''a'' \<in> set (hooks S)" and j: "jobs S ''a'' = Some J" and nc: "\<not> crashed S"
    and t: "trace S = []"
    by (simp_all add: S_def init_def)
  have m: "Webhook (meta J) = ''http://hook''" "ID (meta J) = ''a''" "Status (meta J) = ''COMPLETED''"
    by (simp_all add: J_def M_def)
  have sb: "fst (submitJob Status E [] (Some R) ''a'' (Time 1 0) (init Map.empty)) =
        EncodeMap [(''id'', ''a''), (''status_url'', ''https://q.example/jobs/a/status''),
                   (''result_url'', ''https://q.example/jobs/a/result''),
                   (''log_url'', ''https://q.example/jobs/a/log'')]"
    by (simp add: submitJob_def Let_def E_def)
  have "trace (step Status (\<lambda>d v. (v, True)) E [] (Notify ''a'') S) =
        [Posted ''http://hook''
           [(''id'', ''a''), (''status'', ''COMPLETED''), (''result_url'', ''/jobs/a/result'')]]"
    using webhook_result_url_relative [of M S "''a''" S J Status "\<lambda>d v. (v, True)" E "[]" R "Time 1 0"]
      h j nc t m
    by simp
  then show ?thesis
    using b h j sb
    unfolding Let_def E_def [symmetric] M_def [symmetric] J_def [symmetric] S_def [symmetric]
      R_def [symmetric]
    by simp
qed

end
